theory Spec2Isabelle
  imports Complex_Main "HOL-Library.Multiset" "HOL-Library.Word"
begin

section \<open>Nearest-neighbour transfer coefficients (CNearestNeighbor.cpp)\<close>

text \<open>
  A shallow embedding of \<^verbatim>\<open>CNearestNeighbor::Set_TransferCoeff\<close>.

  \<^item> \<^verbatim>\<open>su2double\<close> is modelled by \<^typ>\<open>real\<close>: arithmetic is exact, there is no rounding,
    overflow, underflow or NaN. Every statement below about distances and weights is a
    statement in exact arithmetic.
  \<^item> Machine integers that only count or index (\<^verbatim>\<open>nDonor\<close>, \<^verbatim>\<open>iProcessor\<close>,
    \<^verbatim>\<open>jVertex\<close>, \<^verbatim>\<open>idx\<close>) are \<^typ>\<open>nat\<close>; marker identifiers are \<^typ>\<open>int\<close> with the
    sentinel \<open>-1\<close>; the field \<^verbatim>\<open>unsigned pidx\<close> is a \<^typ>\<open>32 word\<close>, so that the
    conversion of a \<^verbatim>\<open>long\<close> global point index to \<^verbatim>\<open>unsigned\<close> in the constructor of
    \<^verbatim>\<open>DonorInfo\<close> wraps as it does in C++.
  \<^item> Reading or writing an array outside its bounds, and calling \<^verbatim>\<open>partial_sort\<close> with a
    middle iterator past the end, is undefined behaviour in C++; the model stops there
    with the error \<open>OutOfBounds\<close>.
  \<^item> The OpenMP loop over target vertices is run by one thread, in index order, with
    that thread's scratch vector.
\<close>

subsection \<open>Errors, checked array access, loops\<close>

datatype error = OutOfBounds

definition bindE :: "error + 'a \<Rightarrow> ('a \<Rightarrow> error + 'b) \<Rightarrow> error + 'b" where
  "bindE m f = (case m of Inl e \<Rightarrow> Inl e | Inr x \<Rightarrow> f x)"

text \<open>\<^verbatim>\<open>a[i]\<close> as an rvalue.\<close>

definition rd :: "'a list \<Rightarrow> nat \<Rightarrow> error + 'a" where
  "rd a i = (if i < length a then Inr (a ! i) else Inl OutOfBounds)"

text \<open>\<^verbatim>\<open>a[i] = v\<close>.\<close>

definition wr :: "'a list \<Rightarrow> nat \<Rightarrow> 'a \<Rightarrow> error + 'a list" where
  "wr a i v = (if i < length a then Inr (a[i := v]) else Inl OutOfBounds)"

text \<open>The \<open>n\<close> elements read through the pointer \<^verbatim>\<open>&a[i]\<close>.\<close>

definition rd_block :: "'a list \<Rightarrow> nat \<Rightarrow> nat \<Rightarrow> error + 'a list" where
  "rd_block a i n = (if i + n \<le> length a then Inr (take n (drop i a)) else Inl OutOfBounds)"

text \<open>A \<^verbatim>\<open>for\<close> loop over the listed index values; the first failing iteration ends it.\<close>

fun for_loop :: "'i list \<Rightarrow> ('i \<Rightarrow> 's \<Rightarrow> error + 's) \<Rightarrow> 's \<Rightarrow> error + 's" where
  "for_loop [] body s = Inr s"
| "for_loop (i # is) body s = bindE (body i s) (for_loop is body)"

subsection \<open>Data\<close>

text \<open>\<^verbatim>\<open>struct DonorInfo { su2double dist; unsigned pidx; int proc; }\<close>\<close>

record 'a DonorInfo =
  dist' :: 'a
  pidx :: "32 word"
  proc :: int

text \<open>The constructor \<^verbatim>\<open>DonorInfo(su2double d = 0.0, unsigned i = 0, int p = 0)\<close>, at the call
  of line 121: the second argument is a \<^verbatim>\<open>long\<close>, converted to \<^verbatim>\<open>unsigned\<close>.\<close>

definition DonorInfo :: "'a \<Rightarrow> int \<Rightarrow> nat \<Rightarrow> 'a DonorInfo" where
  "DonorInfo d i p = \<lparr>dist' = d, pidx = word_of_int i, proc = int p\<rparr>"

text \<open>A grid point, as far as the engine reads it: \<^verbatim>\<open>GetDomain()\<close> and \<^verbatim>\<open>GetCoord()\<close>.\<close>

record 'a CPoint =
  GetDomain :: bool
  GetCoord :: "'a list"

text \<open>
  Modelled from the spec: the class \<^verbatim>\<open>CVertex\<close> is not among the sources. The spec (sections
  3 and 6) gives the target vertex a transfer record with operations "allocate a transfer
  record with exactly nDonor slots", "set slot i's donor global identifier", "set slot i's
  donor owning process rank", "set slot i's weight". A slot that was allocated and not yet
  written holds \<open>None\<close>.
\<close>

record 'a DonorSlot =
  InterpDonorPoint :: "nat option"
  InterpDonorProcessor :: "int option"
  DonorCoeff :: "'a option"

record 'a CVertex =
  GetNode :: nat
  Donor :: "'a DonorSlot list"

definition Allocate_DonorInfo :: "nat \<Rightarrow> 'a CVertex \<Rightarrow> 'a CVertex" where
  "Allocate_DonorInfo n v =
     v\<lparr>Donor := replicate n \<lparr>InterpDonorPoint = None, InterpDonorProcessor = None, DonorCoeff = None\<rparr>\<rparr>"

definition SetInterpDonorPoint :: "nat \<Rightarrow> 32 word \<Rightarrow> 'a CVertex \<Rightarrow> error + 'a CVertex" where
  "SetInterpDonorPoint i p v =
     bindE (rd (Donor v) i) (\<lambda>s.
       Inr (v\<lparr>Donor := (Donor v)[i := s\<lparr>InterpDonorPoint := Some (unat p)\<rparr>]\<rparr>))"

definition SetInterpDonorProcessor :: "nat \<Rightarrow> int \<Rightarrow> 'a CVertex \<Rightarrow> error + 'a CVertex" where
  "SetInterpDonorProcessor i p v =
     bindE (rd (Donor v) i) (\<lambda>s.
       Inr (v\<lparr>Donor := (Donor v)[i := s\<lparr>InterpDonorProcessor := Some p\<rparr>]\<rparr>))"

definition SetDonorCoeff :: "nat \<Rightarrow> 'a \<Rightarrow> 'a CVertex \<Rightarrow> error + 'a CVertex" where
  "SetDonorCoeff i c v =
     bindE (rd (Donor v) i) (\<lambda>s.
       Inr (v\<lparr>Donor := (Donor v)[i := s\<lparr>DonorCoeff := Some c\<rparr>]\<rparr>))"

text \<open>
  Modelled from the spec: \<^verbatim>\<open>PointsSquareDistance\<close> is a member of the base class
  \<^verbatim>\<open>CInterpolator\<close>, which is not among the sources. The spec (section 4.4, step 2) has it
  compute the "squared Euclidean distance between the target coordinate and each
  candidate coordinate", over \<open>nDim\<close> components.
\<close>

definition PointsSquareDistance :: "nat \<Rightarrow> 'a::{zero,plus,minus,times} list \<Rightarrow> 'a list \<Rightarrow> 'a" where
  "PointsSquareDistance nDim point_i point_j =
     foldl (\<lambda>d (a, b). d + (b - a) * (b - a)) 0 (zip (take nDim point_i) (take nDim point_j))"

text \<open>
  The data every process holds after the two collectives of one interface marker: the
  members \<^verbatim>\<open>Buffer_Receive_nVertex_Donor\<close> (one count per process),
  \<^verbatim>\<open>MaxLocalVertex_Donor\<close> (the stride of the flat buffers), \<^verbatim>\<open>Buffer_Receive_Coord\<close> and
  \<^verbatim>\<open>Buffer_Receive_GlobalPoint\<close> (an array of \<^verbatim>\<open>long\<close>).
\<close>

record 'a Buffers =
  Buffer_Receive_nVertex_Donor :: "nat list"
  MaxLocalVertex_Donor :: nat
  Buffer_Receive_Coord :: "'a list"
  Buffer_Receive_GlobalPoint :: "int list"

subsection \<open>The search for one target vertex (lines 104 to 143)\<close>

text \<open>Lines 116 to 121, the body of the inner loop; the state is the scratch vector
  \<^verbatim>\<open>donorInfo\<close> and the running index \<^verbatim>\<open>iDonor\<close>.\<close>

definition scan_donor ::
  "'a::{zero,plus,minus,times} Buffers \<Rightarrow> nat \<Rightarrow> 'a list \<Rightarrow> nat \<Rightarrow> nat \<Rightarrow> 'a DonorInfo list \<times> nat \<Rightarrow>
   error + 'a DonorInfo list \<times> nat" where
  "scan_donor b nDim Coord_i iProcessor jVertex s =
     (case s of (donorInfo, iDonor) \<Rightarrow>
        let idx = iProcessor * MaxLocalVertex_Donor b + jVertex in
        bindE (rd (Buffer_Receive_GlobalPoint b) idx) (\<lambda>pGlobalPoint.
        bindE (rd_block (Buffer_Receive_Coord b) (idx * nDim) nDim) (\<lambda>Coord_j.
          let dist2 = PointsSquareDistance nDim Coord_i Coord_j in
          bindE (wr donorInfo iDonor (DonorInfo dist2 pGlobalPoint iProcessor)) (\<lambda>donorInfo'.
            Inr (donorInfo', iDonor + 1)))))"

text \<open>Lines 113 to 123, "Compute all distances".\<close>

definition compute_all_distances ::
  "'a::{zero,plus,minus,times} Buffers \<Rightarrow> nat \<Rightarrow> nat \<Rightarrow> 'a list \<Rightarrow> 'a DonorInfo list \<Rightarrow> error + 'a DonorInfo list" where
  "compute_all_distances b nProcessor nDim Coord_i donorInfo =
     bindE (for_loop [0..<nProcessor]
              (\<lambda>iProcessor s.
                 bindE (rd (Buffer_Receive_nVertex_Donor b) iProcessor) (\<lambda>n.
                   for_loop [0..<n] (scan_donor b nDim Coord_i iProcessor) s))
              (donorInfo, 0))
       (\<lambda>s. Inr (fst s))"

text \<open>
  Lines 126 and 127, "Find k closest points". \<^verbatim>\<open>std::partial_sort\<close> belongs to the C++
  standard library, not to the repository; it is the parameter \<open>psort\<close>, applied to
  the position of the middle iterator and the vector. Its precondition is that the
  middle iterator lies within the range.
\<close>

definition find_k_closest ::
  "(nat \<Rightarrow> 'a DonorInfo list \<Rightarrow> 'a DonorInfo list) \<Rightarrow> nat \<Rightarrow> 'a DonorInfo list \<Rightarrow> error + 'a DonorInfo list" where
  "find_k_closest psort nDonor donorInfo =
     (if nDonor \<le> length donorInfo then Inr (psort nDonor donorInfo) else Inl OutOfBounds)"

text \<open>
  What ISO C++ promises of \<^verbatim>\<open>partial_sort(first, middle, last, comp)\<close> with the comparison
  \<^verbatim>\<open>a.dist < b.dist\<close> of line 127: the elements are rearranged, the first \<open>k\<close> are in
  non-descending order, and no element after them is less than one of them. The order of
  elements that compare equal, and of the elements after the first \<open>k\<close>, is unspecified.
\<close>

definition partial_sort_post :: "nat \<Rightarrow> real DonorInfo list \<Rightarrow> real DonorInfo list \<Rightarrow> bool" where
  "partial_sort_post k xs ys \<longleftrightarrow>
     mset ys = mset xs \<and>
     sorted (map dist' (take k ys)) \<and>
     (\<forall>a \<in> set (take k ys). \<forall>b \<in> set (drop k ys). dist' a \<le> dist' b)"

definition partial_sort_contract :: "(nat \<Rightarrow> real DonorInfo list \<Rightarrow> real DonorInfo list) \<Rightarrow> bool" where
  "partial_sort_contract psort \<longleftrightarrow>
     (\<forall>k xs. k \<le> length xs \<longrightarrow> partial_sort_post k xs (psort k xs))"

text \<open>Lines 130 to 134, "Compute interpolation numerators and denominator".\<close>

definition compute_numerators ::
  "nat \<Rightarrow> 'a::{zero,one,plus,inverse} \<Rightarrow> 'a DonorInfo list \<Rightarrow> error + 'a DonorInfo list \<times> 'a" where
  "compute_numerators nDonor eps donorInfo =
     for_loop [0..<nDonor]
       (\<lambda>iDonor s. case s of (donorInfo, denom) \<Rightarrow>
          bindE (rd donorInfo iDonor) (\<lambda>d.
            let w = 1 / (dist' d + eps) in
            Inr (donorInfo[iDonor := d\<lparr>dist' := w\<rparr>], denom + w)))
       (donorInfo, 0)"

text \<open>Lines 137 to 143, "Set interpolation coefficients".\<close>

definition set_coefficients ::
  "nat \<Rightarrow> 'a::inverse DonorInfo list \<Rightarrow> 'a \<Rightarrow> 'a CVertex \<Rightarrow> error + 'a CVertex" where
  "set_coefficients nDonor donorInfo denom target_vertex =
     for_loop [0..<nDonor]
       (\<lambda>iDonor v.
          bindE (rd donorInfo iDonor) (\<lambda>d.
          bindE (SetInterpDonorPoint iDonor (pidx d) v) (\<lambda>v.
          bindE (SetInterpDonorProcessor iDonor (proc d) v) (\<lambda>v.
            SetDonorCoeff iDonor (dist' d / denom) v))))
       (Allocate_DonorInfo nDonor target_vertex)"

text \<open>Lines 104 to 143, the body of the loop over the target vertices. \<open>node\<close> is
  \<^verbatim>\<open>target_geometry->node\<close>; the state is the thread's scratch vector and the vertex.\<close>

definition target_vertex_body ::
  "(nat \<Rightarrow> 'a DonorInfo list \<Rightarrow> 'a DonorInfo list) \<Rightarrow> nat \<Rightarrow> 'a::{zero,one,plus,minus,times,inverse} \<Rightarrow> 'a Buffers \<Rightarrow> nat \<Rightarrow> nat \<Rightarrow>
   (nat \<Rightarrow> 'a CPoint) \<Rightarrow> 'a DonorInfo list \<times> 'a CVertex \<Rightarrow> error + 'a DonorInfo list \<times> 'a CVertex" where
  "target_vertex_body psort nDonor eps b nProcessor nDim node s =
     (case s of (donorInfo, target_vertex) \<Rightarrow>
        let Point_Target = GetNode target_vertex in
        if \<not> GetDomain (node Point_Target) then Inr (donorInfo, target_vertex)
        else
          let Coord_i = GetCoord (node Point_Target) in
          bindE (compute_all_distances b nProcessor nDim Coord_i donorInfo) (\<lambda>donorInfo.
          bindE (find_k_closest psort nDonor donorInfo) (\<lambda>donorInfo.
          bindE (compute_numerators nDonor eps donorInfo) (\<lambda>(donorInfo, denom).
          bindE (set_coefficients nDonor donorInfo denom target_vertex) (\<lambda>target_vertex.
            Inr (donorInfo, target_vertex))))))"

text \<open>A function that meets the contract, so it can be met: a stable sort of the whole
  vector, which leaves candidates of equal distance in scan order.\<close>

definition partial_sort_stable :: "nat \<Rightarrow> real DonorInfo list \<Rightarrow> real DonorInfo list" where
  "partial_sort_stable k xs = sort_key dist' xs"

subsection \<open>The partial sort of the standard library\<close>

text \<open>
  What \<^verbatim>\<open>std::partial_sort\<close> does with elements that compare equal is not fixed by its
  contract but by its implementation, which is outside the repository. This is the
  algorithm of libstdc++ (\<^verbatim>\<open>bits/stl_algo.h\<close> and \<^verbatim>\<open>bits/stl_heap.h\<close> of GCC), heap selection:
  \<^verbatim>\<open>__partial_sort\<close> is \<^verbatim>\<open>__heap_select\<close> followed by \<^verbatim>\<open>__sort_heap\<close>. The range is a list, an
  iterator is its index, \<open>cmp\<close> is the comparison; the functions are named as in the
  library, after \<^verbatim>\<open>std::__\<close>. libc++ and the library of MSVC select in the same way: a
  max-heap of the first \<open>middle\<close> elements, and each later element that compares less than
  the top of the heap takes the place of the top.
\<close>

text \<open>The loop of \<^verbatim>\<open>__push_heap\<close>; \<open>parent\<close> is \<^verbatim>\<open>(holeIndex - 1) / 2\<close>, which is 0 for
  \<open>holeIndex = 0\<close> in C++ as it is here.\<close>

function push_heap_loop :: "('a \<Rightarrow> 'a \<Rightarrow> bool) \<Rightarrow> nat \<Rightarrow> 'a \<Rightarrow> 'a list \<times> nat \<Rightarrow> 'a list \<times> nat" where
  "push_heap_loop cmp topIndex val (first, holeIndex) =
     (let parent = (holeIndex - 1) div 2 in
      if holeIndex > topIndex \<and> cmp (first ! parent) val
      then push_heap_loop cmp topIndex val (first[holeIndex := first ! parent], parent)
      else (first, holeIndex))"
  by pat_completeness auto
termination
  by (relation "measure (\<lambda>(cmp, topIndex, val, first, holeIndex). holeIndex)") auto

definition std_push_heap :: "('a \<Rightarrow> 'a \<Rightarrow> bool) \<Rightarrow> 'a list \<Rightarrow> nat \<Rightarrow> nat \<Rightarrow> 'a \<Rightarrow> 'a list" where
  "std_push_heap cmp first holeIndex topIndex val =
     (case push_heap_loop cmp topIndex val (first, holeIndex) of
        (first, holeIndex) \<Rightarrow> first[holeIndex := val])"

text \<open>The loop of \<^verbatim>\<open>__adjust_heap\<close>, which moves the hole down to a leaf.\<close>

function adjust_heap_loop :: "('a \<Rightarrow> 'a \<Rightarrow> bool) \<Rightarrow> nat \<Rightarrow> 'a list \<times> nat \<times> nat \<Rightarrow> 'a list \<times> nat \<times> nat" where
  "adjust_heap_loop cmp len (first, holeIndex, secondChild) =
     (if secondChild < (len - 1) div 2 then
        let secondChild = 2 * (secondChild + 1);
            secondChild = (if cmp (first ! secondChild) (first ! (secondChild - 1))
                           then secondChild - 1 else secondChild)
        in adjust_heap_loop cmp len (first[holeIndex := first ! secondChild], secondChild, secondChild)
      else (first, holeIndex, secondChild))"
  by pat_completeness auto
termination
  by (relation "measure (\<lambda>(cmp, len, first, holeIndex, secondChild). (len - 1) div 2 - secondChild)") auto

declare push_heap_loop.simps [simp del] adjust_heap_loop.simps [simp del]

text \<open>\<^verbatim>\<open>__adjust_heap\<close>. Its second test is \<^verbatim>\<open>(len & 1) == 0 && secondChild == (len - 2) / 2\<close>;
  for \<open>len < 2\<close> the quotient is negative in C++ or the length is odd, so the test fails.\<close>

definition std_adjust_heap :: "('a \<Rightarrow> 'a \<Rightarrow> bool) \<Rightarrow> 'a list \<Rightarrow> nat \<Rightarrow> nat \<Rightarrow> 'a \<Rightarrow> 'a list" where
  "std_adjust_heap cmp first holeIndex len val =
     (let topIndex = holeIndex in
      case adjust_heap_loop cmp len (first, holeIndex, holeIndex) of
        (first, holeIndex, secondChild) \<Rightarrow>
          if even len \<and> 2 \<le> len \<and> secondChild = (len - 2) div 2 then
            let secondChild = 2 * (secondChild + 1) in
            std_push_heap cmp (first[holeIndex := first ! (secondChild - 1)]) (secondChild - 1) topIndex val
          else std_push_heap cmp first holeIndex topIndex val)"

text \<open>\<^verbatim>\<open>__pop_heap(first, last, result)\<close>: the element at \<open>result\<close> enters the heap
  \<open>[first, last)\<close> and the top of the heap goes to \<open>result\<close>.\<close>

definition std_pop_heap :: "('a \<Rightarrow> 'a \<Rightarrow> bool) \<Rightarrow> 'a list \<Rightarrow> nat \<Rightarrow> nat \<Rightarrow> 'a list" where
  "std_pop_heap cmp first last' result =
     (let val = first ! result in
      std_adjust_heap cmp (first[result := first ! 0]) 0 last' val)"

text \<open>\<^verbatim>\<open>__make_heap\<close>: \<open>parent\<close> runs from \<^verbatim>\<open>(len - 2) / 2\<close> down to 0.\<close>

definition std_make_heap :: "('a \<Rightarrow> 'a \<Rightarrow> bool) \<Rightarrow> 'a list \<Rightarrow> nat \<Rightarrow> 'a list" where
  "std_make_heap cmp first last' =
     (if last' < 2 then first
      else fold (\<lambda>parent first. std_adjust_heap cmp first parent last' (first ! parent))
             (rev [0..<Suc ((last' - 2) div 2)]) first)"

definition std_heap_select :: "('a \<Rightarrow> 'a \<Rightarrow> bool) \<Rightarrow> 'a list \<Rightarrow> nat \<Rightarrow> nat \<Rightarrow> 'a list" where
  "std_heap_select cmp first middle last' =
     fold (\<lambda>i first. if cmp (first ! i) (first ! 0) then std_pop_heap cmp first middle i else first)
       [middle..<last'] (std_make_heap cmp first middle)"

text \<open>\<^verbatim>\<open>__sort_heap\<close>: \<^verbatim>\<open>while (last - first > 1) { --last; __pop_heap(first, last, last); }\<close>\<close>

definition std_sort_heap :: "('a \<Rightarrow> 'a \<Rightarrow> bool) \<Rightarrow> 'a list \<Rightarrow> nat \<Rightarrow> 'a list" where
  "std_sort_heap cmp first last' =
     fold (\<lambda>last' first. std_pop_heap cmp first last' last') (rev [1..<last']) first"

text \<open>\<^verbatim>\<open>partial_sort(first, first + middle, last, cmp)\<close> on the vector \<open>xs\<close>. The call of line
  126 is \<open>std_partial_sort (\<lambda>a b. dist' a < dist' b) nDonor\<close>.\<close>

definition std_partial_sort :: "('a \<Rightarrow> 'a \<Rightarrow> bool) \<Rightarrow> nat \<Rightarrow> 'a list \<Rightarrow> 'a list" where
  "std_partial_sort cmp middle xs =
     std_sort_heap cmp (std_heap_select cmp xs middle (length xs)) middle"

subsection \<open>What the search is expected to produce\<close>

text \<open>The candidate of process \<open>iProcessor\<close>, local slot \<open>jVertex\<close>: squared distance to
  the target, global point index, owning process.\<close>

definition candidate :: "'a::{zero,plus,minus,times} Buffers \<Rightarrow> nat \<Rightarrow> 'a list \<Rightarrow> nat \<Rightarrow> nat \<Rightarrow> 'a DonorInfo" where
  "candidate b nDim Coord_i iProcessor jVertex =
     (let idx = iProcessor * MaxLocalVertex_Donor b + jVertex in
      DonorInfo
        (PointsSquareDistance nDim Coord_i (take nDim (drop (idx * nDim) (Buffer_Receive_Coord b))))
        (Buffer_Receive_GlobalPoint b ! idx) iProcessor)"

text \<open>The candidates up to process \<open>P\<close>, in scan order: process by process, and within a
  process the slots below that process's own count. A padded slot is none of them.\<close>

definition cands_upto :: "'a::{zero,plus,minus,times} Buffers \<Rightarrow> nat \<Rightarrow> 'a list \<Rightarrow> nat \<Rightarrow> 'a DonorInfo list" where
  "cands_upto b nDim Coord_i P =
     concat (map (\<lambda>iProcessor.
                map (candidate b nDim Coord_i iProcessor)
                  [0..<Buffer_Receive_nVertex_Donor b ! iProcessor])
             [0..<P])"

definition candidates :: "'a::{zero,plus,minus,times} Buffers \<Rightarrow> nat \<Rightarrow> nat \<Rightarrow> 'a list \<Rightarrow> 'a DonorInfo list" where
  "candidates b nProcessor nDim Coord_i = cands_upto b nDim Coord_i nProcessor"

text \<open>What the code and the collectives establish of the gathered data: one count per
  process (line 59), no count above the stride \<^verbatim>\<open>MaxLocalVertex_Donor\<close> (section 4.2 of the
  spec: it is the maximum count), and the sizes of the flat buffers (lines 88 and 89).\<close>

definition gathered :: "'a Buffers \<Rightarrow> nat \<Rightarrow> nat \<Rightarrow> bool" where
  "gathered b nProcessor nDim \<longleftrightarrow>
     length (Buffer_Receive_nVertex_Donor b) = nProcessor \<and>
     (\<forall>n \<in> set (Buffer_Receive_nVertex_Donor b). n \<le> MaxLocalVertex_Donor b) \<and>
     length (Buffer_Receive_Coord b) = nProcessor * MaxLocalVertex_Donor b * nDim \<and>
     length (Buffer_Receive_GlobalPoint b) = nProcessor * MaxLocalVertex_Donor b"

text \<open>Line 83: \<^verbatim>\<open>accumulate(Buffer_Receive_nVertex_Donor, ... + nProcessor, 0ul)\<close>.\<close>

definition nPossibleDonor :: "'a Buffers \<Rightarrow> nat" where
  "nPossibleDonor b = sum_list (Buffer_Receive_nVertex_Donor b)"

definition empty_slot :: "'a DonorSlot" where
  "empty_slot = \<lparr>InterpDonorPoint = None, InterpDonorProcessor = None, DonorCoeff = None\<rparr>"

text \<open>The slot written for a selected entry whose \<^verbatim>\<open>dist\<close> field already holds the weight.\<close>

definition slot_of :: "'a::inverse \<Rightarrow> 'a DonorInfo \<Rightarrow> 'a DonorSlot" where
  "slot_of denom d =
     \<lparr>InterpDonorPoint = Some (unat (pidx d)), InterpDonorProcessor = Some (proc d),
      DonorCoeff = Some (dist' d / denom)\<rparr>"

definition weigh :: "'a::{one,plus,inverse} \<Rightarrow> 'a DonorInfo \<Rightarrow> 'a DonorInfo" where
  "weigh eps d = d\<lparr>dist' := 1 / (dist' d + eps)\<rparr>"

text \<open>The sum of the raw weights of the entries selected from \<open>ys\<close>, added up from
  \<^verbatim>\<open>0.0\<close> in the order of the loop of line 131.\<close>

definition denom_of :: "nat \<Rightarrow> 'a::{zero,one,plus,inverse} \<Rightarrow> 'a DonorInfo list \<Rightarrow> 'a" where
  "denom_of nDonor eps ys = foldl (\<lambda>denom d. denom + 1 / (dist' d + eps)) 0 (take nDonor ys)"

text \<open>The transfer record written from the partially sorted vector \<open>ys\<close>.\<close>

definition record_of :: "nat \<Rightarrow> 'a::{zero,one,plus,inverse} \<Rightarrow> 'a DonorInfo list \<Rightarrow> 'a DonorSlot list" where
  "record_of nDonor eps ys =
     map (\<lambda>d. slot_of (denom_of nDonor eps ys) (weigh eps d)) (take nDonor ys)"

definition written :: "'a DonorSlot \<Rightarrow> bool" where
  "written s \<longleftrightarrow> InterpDonorPoint s \<noteq> None \<and> InterpDonorProcessor s \<noteq> None \<and> DonorCoeff s \<noteq> None"

text \<open>Two sets of gathered data hold the same donors when they agree on the counts, on the
  stride and on every slot below its process's count; they may differ on the padding.\<close>

definition same_donors :: "'a Buffers \<Rightarrow> 'a Buffers \<Rightarrow> nat \<Rightarrow> bool" where
  "same_donors b b' nDim \<longleftrightarrow>
     Buffer_Receive_nVertex_Donor b' = Buffer_Receive_nVertex_Donor b \<and>
     MaxLocalVertex_Donor b' = MaxLocalVertex_Donor b \<and>
     (\<forall>iProcessor < length (Buffer_Receive_nVertex_Donor b).
        \<forall>jVertex < Buffer_Receive_nVertex_Donor b ! iProcessor.
          let idx = iProcessor * MaxLocalVertex_Donor b + jVertex in
          Buffer_Receive_GlobalPoint b' ! idx = Buffer_Receive_GlobalPoint b ! idx \<and>
          take nDim (drop (idx * nDim) (Buffer_Receive_Coord b')) =
          take nDim (drop (idx * nDim) (Buffer_Receive_Coord b)))"

subsection \<open>The pass over the interface markers (lines 48 to 157)\<close>

text \<open>
  The parts of the program that \<^verbatim>\<open>Set_TransferCoeff\<close> calls and that are not among the
  sources are parameters:
  \<^item> \<open>partial_sort\<close>, of the C++ standard library;
  \<^item> \<open>CheckInterfaceBoundary\<close>, of the base class \<^verbatim>\<open>CInterpolator\<close>;
  \<^item> \<open>Determine_ArraySize\<close>, the collective of line 81: for the interface marker being
    processed and its arguments, the value it leaves in \<^verbatim>\<open>MaxLocalVertex_Donor\<close> and the
    count it leaves in \<^verbatim>\<open>Buffer_Receive_nVertex_Donor[p]\<close> for each process \<open>p\<close>;
  \<^item> \<open>Collect_VertexInfo\<close>, the collective of line 92: the contents it leaves in
    \<^verbatim>\<open>Buffer_Receive_Coord\<close> and \<^verbatim>\<open>Buffer_Receive_GlobalPoint\<close>, by index.

  The answers of the two collectives depend on the other processes; their first argument
  here is the interface marker index, which stands for the moment of the call. The other
  arguments are those of the source, the first of them the flag \<^verbatim>\<open>false\<close>.
\<close>

record Collaborators =
  partial_sort :: "nat \<Rightarrow> real DonorInfo list \<Rightarrow> real DonorInfo list"
  CheckInterfaceBoundary :: "int \<Rightarrow> int \<Rightarrow> bool"
  Determine_ArraySize ::
    "nat \<Rightarrow> bool \<Rightarrow> int \<Rightarrow> int \<Rightarrow> nat \<Rightarrow> nat \<Rightarrow> nat \<times> (nat \<Rightarrow> nat)"
  Collect_VertexInfo ::
    "nat \<Rightarrow> bool \<Rightarrow> int \<Rightarrow> int \<Rightarrow> nat \<Rightarrow> nat \<Rightarrow> (nat \<Rightarrow> real) \<times> (nat \<Rightarrow> int)"

text \<open>
  Modelled from the spec: \<^verbatim>\<open>CInterpolator::CheckInterfaceBoundary\<close> is not among the
  sources. Section 4.1 of the spec: "If neither zone's marker resolves to a real value, the
  entire marker is skipped"; the sentinel is \<open>-1\<close> (lines 77 and 78).
\<close>

definition CheckInterfaceBoundary_spec :: "int \<Rightarrow> int \<Rightarrow> bool" where
  "CheckInterfaceBoundary_spec markDonor markTarget \<longleftrightarrow> markDonor \<noteq> - 1 \<or> markTarget \<noteq> - 1"

text \<open>A configuration, as far as the engine reads it. \<^verbatim>\<open>Find_InterfaceMarker(config, i)\<close> is a
  member of \<^verbatim>\<open>CInterpolator\<close> that is not among the sources; its answers for a configuration
  are a field of the configuration.\<close>

record CConfig =
  GetNumNearestNeighbors :: nat
  GetMarker_n_ZoneInterface :: nat
  Find_InterfaceMarker :: "nat \<Rightarrow> int"

text \<open>The geometry that the engine only reads: \<^verbatim>\<open>donor_geometry->GetnDim()\<close>,
  \<^verbatim>\<open>donor_geometry->GetnVertex(marker)\<close> and \<^verbatim>\<open>target_geometry->node\<close>.\<close>

record Geometry =
  GetnDim :: nat
  GetnVertex_donor :: "int \<Rightarrow> nat"
  node :: "nat \<Rightarrow> real CPoint"

text \<open>Allocations, releases and collective calls, in the order they happen.\<close>

datatype event =
    New string nat
  | Delete string
  | Call_Determine_ArraySize nat
  | Call_Collect_VertexInfo nat

text \<open>What the pass changes: the vertices of the target markers
  (\<^verbatim>\<open>target_geometry->vertex[marker]\<close>, a list of \<^verbatim>\<open>GetnVertex(marker)\<close> vertices), the scratch
  vector of the thread (\<^verbatim>\<open>DonorInfoVec[omp_get_thread_num()]\<close>), and the events so far.\<close>

record State =
  vertex :: "int \<Rightarrow> real CVertex list"
  DonorInfoVec :: "real DonorInfo list"
  events :: "event list"

text \<open>\<^verbatim>\<open>donorInfo.resize(n)\<close>: new elements are \<^verbatim>\<open>DonorInfo()\<close>.\<close>

definition resize :: "nat \<Rightarrow> 'a::zero DonorInfo list \<Rightarrow> 'a DonorInfo list" where
  "resize n v = take n v @ replicate (n - length v) (DonorInfo 0 0 0)"

text \<open>Lines 102 to 144: one iteration of the loop over the target vertices of a marker.\<close>

definition target_loop_body ::
  "(nat \<Rightarrow> 'a DonorInfo list \<Rightarrow> 'a DonorInfo list) \<Rightarrow> nat \<Rightarrow> 'a::{zero,one,plus,minus,times,inverse} \<Rightarrow> 'a Buffers \<Rightarrow> nat \<Rightarrow> nat \<Rightarrow>
   (nat \<Rightarrow> 'a CPoint) \<Rightarrow> nat \<Rightarrow> 'a DonorInfo list \<times> 'a CVertex list \<Rightarrow>
   error + 'a DonorInfo list \<times> 'a CVertex list" where
  "target_loop_body psort nDonor eps b nProcessor nDim nodes iVertexTarget s =
     (case s of (donorInfo, verts) \<Rightarrow>
        bindE (rd verts iVertexTarget) (\<lambda>target_vertex.
        bindE (target_vertex_body psort nDonor eps b nProcessor nDim nodes (donorInfo, target_vertex))
          (\<lambda>(donorInfo, target_vertex).
             Inr (donorInfo, verts[iVertexTarget := target_vertex]))))"

text \<open>The gathered data of one marker, lines 81 to 92.\<close>

definition gather :: "Collaborators \<Rightarrow> nat \<Rightarrow> nat \<Rightarrow> nat \<Rightarrow> int \<Rightarrow> int \<Rightarrow> nat \<Rightarrow> real Buffers" where
  "gather C nProcessor nDim iMarkerInt markDonor markTarget nVertexDonor =
     (let (stride, cnt) =
            Determine_ArraySize C iMarkerInt False markDonor markTarget nVertexDonor nDim;
          (coord, point) =
            Collect_VertexInfo C iMarkerInt False markDonor markTarget nVertexDonor nDim
      in \<lparr>Buffer_Receive_nVertex_Donor = map cnt [0..<nProcessor],
          MaxLocalVertex_Donor = stride,
          Buffer_Receive_Coord = map coord [0..<nProcessor * stride * nDim],
          Buffer_Receive_GlobalPoint = map point [0..<nProcessor * stride]\<rparr>)"

text \<open>The events of one processed marker, in program order (lines 81 to 151).\<close>

definition marker_events :: "nat \<Rightarrow> nat \<Rightarrow> nat \<Rightarrow> nat \<Rightarrow> event list" where
  "marker_events iMarkerInt nProcessor stride nDim =
     [Call_Determine_ArraySize iMarkerInt,
      New ''Buffer_Send_Coord'' (stride * nDim),
      New ''Buffer_Send_GlobalPoint'' stride,
      New ''Buffer_Receive_Coord'' (nProcessor * stride * nDim),
      New ''Buffer_Receive_GlobalPoint'' (nProcessor * stride),
      Call_Collect_VertexInfo iMarkerInt,
      Delete ''Buffer_Send_Coord'',
      Delete ''Buffer_Send_GlobalPoint'',
      Delete ''Buffer_Receive_Coord'',
      Delete ''Buffer_Receive_GlobalPoint'']"

text \<open>Lines 65 to 153: one iteration of the loop over the interface markers.\<close>

definition marker_body ::
  "Collaborators \<Rightarrow> CConfig \<Rightarrow> CConfig \<Rightarrow> Geometry \<Rightarrow> nat \<Rightarrow> real \<Rightarrow> nat \<Rightarrow> nat \<Rightarrow> State \<Rightarrow> error + State" where
  "marker_body C config_donor config_target g nDonor eps nProcessor iMarkerInt st =
     (let markDonor = Find_InterfaceMarker config_donor iMarkerInt;
          markTarget = Find_InterfaceMarker config_target iMarkerInt
      in
      if \<not> CheckInterfaceBoundary C markDonor markTarget then Inr st
      else
        let nVertexDonor = (if markDonor \<noteq> - 1 then GetnVertex_donor g markDonor else 0);
            nVertexTarget = (if markTarget \<noteq> - 1 then length (vertex st markTarget) else 0);
            nDim = GetnDim g;
            b = gather C nProcessor nDim iMarkerInt markDonor markTarget nVertexDonor;
            donorInfo = resize (nPossibleDonor b) (DonorInfoVec st)
        in
        bindE (for_loop [0..<nVertexTarget]
                 (target_loop_body (partial_sort C) nDonor eps b nProcessor nDim (node g))
                 (donorInfo, vertex st markTarget))
          (\<lambda>(donorInfo, verts).
             Inr (st\<lparr>vertex := (vertex st)(markTarget := verts),
                     DonorInfoVec := donorInfo,
                     events := events st @
                       marker_events iMarkerInt nProcessor (MaxLocalVertex_Donor b) nDim\<rparr>)))"

text \<open>Line 51, "Desired number of donor points".\<close>

definition nDonor_of :: "CConfig \<Rightarrow> nat" where
  "nDonor_of config_donor = max (GetNumNearestNeighbors config_donor) 1"

text \<open>
  \<^verbatim>\<open>CNearestNeighbor::Set_TransferCoeff\<close>. \<open>config_donor\<close> is \<^verbatim>\<open>config[donorZone]\<close>,
  \<open>config_target\<close> is \<^verbatim>\<open>config[targetZone]\<close>, \<open>nProcessor\<close> is \<^verbatim>\<open>size\<close>. \<open>eps\<close> is
  \<^verbatim>\<open>numeric_limits<passivedouble>::epsilon()\<close> of line 53; the type \<^verbatim>\<open>passivedouble\<close> is
  declared outside the sources, so its machine epsilon is a parameter.
\<close>

definition Set_TransferCoeff ::
  "Collaborators \<Rightarrow> real \<Rightarrow> CConfig \<Rightarrow> CConfig \<Rightarrow> Geometry \<Rightarrow> nat \<Rightarrow> State \<Rightarrow> error + State" where
  "Set_TransferCoeff C eps config_donor config_target g nProcessor st =
     (let nDonor = nDonor_of config_donor;
          nMarkerInt = GetMarker_n_ZoneInterface config_donor div 2;
          st0 = st\<lparr>DonorInfoVec := [],
                   events := events st @ [New ''Buffer_Receive_nVertex_Donor'' nProcessor]\<rparr>
      in
      bindE (for_loop [1..<Suc nMarkerInt]
               (marker_body C config_donor config_target g nDonor eps nProcessor) st0)
        (\<lambda>st. Inr (st\<lparr>events := events st @ [Delete ''Buffer_Receive_nVertex_Donor'']\<rparr>)))"

text \<open>The machine epsilon of IEEE binary64, the usual \<^verbatim>\<open>passivedouble\<close>.\<close>

definition epsilon_binary64 :: real where
  "epsilon_binary64 = 1 / 2 ^ 52"

text \<open>Section 4.2 of the spec, of the collective of line 81: the stride it returns is the
  maximum of the counts it returns, so no count is above it.\<close>

definition stride_covers_counts :: "Collaborators \<Rightarrow> nat \<Rightarrow> bool" where
  "stride_covers_counts C nProcessor \<longleftrightarrow>
     (\<forall>iMarkerInt faces markDonor markTarget nVertexDonor nDim. \<forall>p < nProcessor.
        snd (Determine_ArraySize C iMarkerInt faces markDonor markTarget nVertexDonor nDim) p
          \<le> fst (Determine_ArraySize C iMarkerInt faces markDonor markTarget nVertexDonor nDim))"

text \<open>A record as a returning search leaves it: \<open>k\<close> slots, all written, with positive
  weights that sum to 1.\<close>

definition normalised_record :: "nat \<Rightarrow> real DonorSlot list \<Rightarrow> bool" where
  "normalised_record k r \<longleftrightarrow>
     length r = k \<and> (\<forall>s \<in> set r. written s) \<and>
     (\<exists>ws. map DonorCoeff r = map Some ws \<and> (\<forall>w \<in> set ws. 0 < w) \<and> sum_list ws = 1)"

subsection \<open>A small interface\<close>

text \<open>
  Two processes in one dimension. Process 0 holds one donor, at coordinate 3 with global
  index 30; its second slot is padding. Process 1 holds two donors, at coordinates 1 and 2
  with global indices 10 and 20. Node 0 is owned by this process and lies at coordinate
  0; every other node is a halo node.
\<close>

definition example_buffers :: "real Buffers" where
  "example_buffers = \<lparr>Buffer_Receive_nVertex_Donor = [1, 2], MaxLocalVertex_Donor = 2,
     Buffer_Receive_Coord = [3, 0, 1, 2], Buffer_Receive_GlobalPoint = [30, 0, 10, 20]\<rparr>"

definition example_nodes :: "nat \<Rightarrow> real CPoint" where
  "example_nodes p = \<lparr>GetDomain = (p = 0), GetCoord = [0]\<rparr>"

definition example_vertex :: "real CVertex" where
  "example_vertex = \<lparr>GetNode = 0, Donor = []\<rparr>"

definition example_scratch :: "real DonorInfo list" where
  "example_scratch = replicate 3 (DonorInfo 0 0 0)"

text \<open>With \<open>nDonor = 2\<close> the donors at squared distances 1 and 4 are selected; their
  weights and the record:\<close>

definition example_weight :: "real \<Rightarrow> real \<Rightarrow> real" where
  "example_weight eps d = 1 / (d + eps) / (1 / (1 + eps) + 1 / (4 + eps))"

definition example_record :: "real \<Rightarrow> real DonorSlot list" where
  "example_record eps =
     [\<lparr>InterpDonorPoint = Some 10, InterpDonorProcessor = Some 1, DonorCoeff = Some (example_weight eps 1)\<rparr>,
      \<lparr>InterpDonorPoint = Some 20, InterpDonorProcessor = Some 1, DonorCoeff = Some (example_weight eps 4)\<rparr>]"

text \<open>One process with two donors, at coordinates 0 and 1; the donor at 0 coincides with
  the target of node 0. The record for \<open>nDonor = 2\<close> follows.\<close>

definition coincident_buffers :: "real Buffers" where
  "coincident_buffers = \<lparr>Buffer_Receive_nVertex_Donor = [2], MaxLocalVertex_Donor = 2,
     Buffer_Receive_Coord = [0, 1], Buffer_Receive_GlobalPoint = [7, 8]\<rparr>"

definition coincident_record :: "real \<Rightarrow> real DonorSlot list" where
  "coincident_record eps =
     [\<lparr>InterpDonorPoint = Some 7, InterpDonorProcessor = Some 0,
        DonorCoeff = Some (1 / eps / (1 / eps + 1 / (1 + eps)))\<rparr>,
      \<lparr>InterpDonorPoint = Some 8, InterpDonorProcessor = Some 0,
        DonorCoeff = Some (1 / (1 + eps) / (1 / eps + 1 / (1 + eps)))\<rparr>]"

text \<open>Two processes with one donor each, at coordinates 1 and \<open>-1\<close>: both at squared
  distance 1 from the target of node 0.\<close>

definition tied_buffers :: "real Buffers" where
  "tied_buffers = \<lparr>Buffer_Receive_nVertex_Donor = [1, 1], MaxLocalVertex_Donor = 1,
     Buffer_Receive_Coord = [1, - 1], Buffer_Receive_GlobalPoint = [100, 200]\<rparr>"

text \<open>
  A pass over the small interface, on the process of rank 0 among two. The configuration
  has two interface marker indices: index 1 is donor marker 0 and target marker 1 on this
  process, index 2 is on neither zone of this process. The collectives answer with the
  gathered data of the small interface; \<^verbatim>\<open>partial_sort\<close> is the stable one and the
  interface-boundary check is that of the spec. Target marker 1 has two vertices: one on
  the owned node 0 and one on the halo node 1.
\<close>

definition example_collaborators :: Collaborators where
  "example_collaborators =
     \<lparr>partial_sort = partial_sort_stable,
      CheckInterfaceBoundary = CheckInterfaceBoundary_spec,
      Determine_ArraySize =
        (\<lambda>iMarkerInt faces markDonor markTarget nVertexDonor nDim.
           (2, \<lambda>p. if p = 0 then 1 else 2)),
      Collect_VertexInfo =
        (\<lambda>iMarkerInt faces markDonor markTarget nVertexDonor nDim.
           (\<lambda>k. [3, 0, 1, 2] ! k, \<lambda>k. [30, 0, 10, 20] ! k))\<rparr>"

definition example_config_donor :: CConfig where
  "example_config_donor =
     \<lparr>GetNumNearestNeighbors = 2, GetMarker_n_ZoneInterface = 4,
      Find_InterfaceMarker = (\<lambda>i. if i = 1 then 0 else - 1)\<rparr>"

definition example_config_target :: CConfig where
  "example_config_target =
     \<lparr>GetNumNearestNeighbors = 2, GetMarker_n_ZoneInterface = 4,
      Find_InterfaceMarker = (\<lambda>i. if i = 1 then 1 else - 1)\<rparr>"

definition example_geometry :: Geometry where
  "example_geometry =
     \<lparr>GetnDim = 1, GetnVertex_donor = (\<lambda>m. if m = 0 then 1 else 0), node = example_nodes\<rparr>"

definition example_halo_vertex :: "real CVertex" where
  "example_halo_vertex = \<lparr>GetNode = 1, Donor = []\<rparr>"

definition example_state :: State where
  "example_state =
     \<lparr>vertex = (\<lambda>m. if m = 1 then [example_vertex, example_halo_vertex] else []),
      DonorInfoVec = [], events = []\<rparr>"

definition example_final :: "real \<Rightarrow> State" where
  "example_final eps =
     \<lparr>vertex = (\<lambda>m. if m = 1
                    then [example_vertex\<lparr>Donor := example_record eps\<rparr>, example_halo_vertex]
                    else []),
      DonorInfoVec = [DonorInfo (1 / (1 + eps)) 10 1, DonorInfo (1 / (4 + eps)) 20 1, DonorInfo 9 30 0],
      events = New ''Buffer_Receive_nVertex_Donor'' 2 # marker_events 1 2 2 1 @
               [Delete ''Buffer_Receive_nVertex_Donor'']\<rparr>"
section \<open>Properties\<close>

subsection \<open>Loops and checked accesses\<close>

lemma bindE_Inr [simp]: "bindE (Inr x) f = f x"
  by (simp add: bindE_def)

lemma bindE_Inl [simp]: "bindE (Inl e) f = Inl e"
  by (simp add: bindE_def)

lemma bindE_eq_Inr: "bindE m f = Inr y \<longleftrightarrow> (\<exists>x. m = Inr x \<and> f x = Inr y)"
  by (cases m) simp_all

lemma for_loop_append:
  "for_loop (xs @ ys) body s = bindE (for_loop xs body s) (for_loop ys body)"
proof (induction xs arbitrary: s)
  case Nil
  show ?case by simp
next
  case (Cons x xs)
  show ?case
    by (cases "body x s") (simp_all add: Cons.IH)
qed

lemma for_loop_upt_Suc:
  "for_loop [0..<Suc n] body s = bindE (for_loop [0..<n] body s) (body n)"
proof -
  have "for_loop [n] body = body n"
    by (rule ext) (simp add: bindE_def split: sum.splits)
  then show ?thesis
    by (simp add: for_loop_append)
qed

lemma upt_split_at: "n < m \<Longrightarrow> [0..<m] = [0..<n] @ n # [Suc n..<m]"
  by (metis less_imp_add_positive upt_add_eq_append upt_conv_Cons zero_le)

lemma for_loop_rel:
  assumes refl: "\<And>s. R s s"
    and trans: "\<And>s s' s''. R s s' \<Longrightarrow> R s' s'' \<Longrightarrow> R s s''"
    and step: "\<And>i s s'. i \<in> set is \<Longrightarrow> body i s = Inr s' \<Longrightarrow> R s s'"
    and run: "for_loop is body s = Inr s'"
  shows "R s s'"
  using step run
proof (induction "is" arbitrary: s)
  case Nil
  then show ?case by (simp add: refl)
next
  case (Cons i "is")
  from Cons.prems(2) obtain s1 where s1: "body i s = Inr s1" "for_loop is body s1 = Inr s'"
    by (auto simp: bindE_eq_Inr)
  have "R s s1"
    by (rule Cons.prems(1) [OF _ s1(1)]) simp
  moreover have "R s1 s'"
  proof (rule Cons.IH [OF _ s1(2)])
    fix j t t'
    assume "j \<in> set is" "body j t = Inr t'"
    then show "R t t'"
      by (intro Cons.prems(1)) simp_all
  qed
  ultimately show ?case
    by (rule trans)
qed

lemma rd_in [simp]: "i < length a \<Longrightarrow> rd a i = Inr (a ! i)"
  by (simp add: rd_def)

lemma rd_out [simp]: "length a \<le> i \<Longrightarrow> rd a i = Inl OutOfBounds"
  by (simp add: rd_def)

subsection \<open>Arithmetic of the weights\<close>

lemma sum_list_divide: "(\<Sum>x\<leftarrow>xs. f x / c) = (\<Sum>x\<leftarrow>xs. f x) / (c :: real)"
  by (induction xs) (simp_all add: add_divide_distrib)

text \<open>In exact arithmetic the order of the additions does not matter.\<close>

lemma foldl_add_real:
  fixes f :: "'b \<Rightarrow> real"
  shows "foldl (\<lambda>s x. s + f x) a xs = a + (\<Sum>x\<leftarrow>xs. f x)"
  by (induction xs arbitrary: a) simp_all

lemma PointsSquareDistance_real:
  fixes point_i point_j :: "real list"
  shows "PointsSquareDistance nDim point_i point_j =
     (\<Sum>(a, b) \<leftarrow> zip (take nDim point_i) (take nDim point_j). (b - a)\<^sup>2)"
proof -
  have "(\<lambda>(d::real) (a, b). d + (b - a) * (b - a)) = (\<lambda>d x. d + (case x of (a, b) \<Rightarrow> (b - a)\<^sup>2))"
    by (auto simp: fun_eq_iff power2_eq_square)
  then show ?thesis
    by (simp add: PointsSquareDistance_def foldl_add_real)
qed

lemma denom_of_real:
  fixes eps :: real
  shows "denom_of nDonor eps ys = (\<Sum>d \<leftarrow> take nDonor ys. 1 / (dist' d + eps))"
  by (simp add: denom_of_def foldl_add_real)

lemma sum_list_map_pos:
  "xs \<noteq> [] \<Longrightarrow> (\<And>x. x \<in> set xs \<Longrightarrow> 0 < f x) \<Longrightarrow> 0 < (\<Sum>x\<leftarrow>xs. (f x :: real))"
proof (induction xs)
  case Nil
  then show ?case by simp
next
  case (Cons x xs)
  show ?case
  proof (cases "xs = []")
    case True
    then show ?thesis using Cons.prems(2) by simp
  next
    case False
    then have "0 < (\<Sum>x\<leftarrow>xs. f x)"
      using Cons by simp
    moreover have "0 < f x"
      using Cons.prems(2) by simp
    ultimately show ?thesis by simp
  qed
qed



lemma ratio_pos: "0 < D \<Longrightarrow> 0 < x \<Longrightarrow> 0 < x / (D::real)"
  by simp

lemma epsilon_binary64_pos: "0 < epsilon_binary64"
  by (simp add: epsilon_binary64_def)

lemma coincident_weight:
  assumes "0 < eps" "eps \<le> 1 / 10 ^ 6"
  shows "999999 / 1000000 < 1 / eps / (1 / eps + 1 / (1 + (eps::real)))"
proof -
  have nz: "eps \<noteq> 0" "1 + eps \<noteq> 0" "1 + 2 * eps \<noteq> 0"
    using assms(1) by simp_all
  have "1 / eps + 1 / (1 + eps) = (1 + 2 * eps) / (eps * (1 + eps))"
    using nz by (simp add: add_frac_eq)
  then have eq: "1 / eps / (1 / eps + 1 / (1 + eps)) = (1 + eps) / (1 + 2 * eps)"
    using nz by simp
  have "999999 * (1 + 2 * eps) < 1000000 * (1 + eps)"
    using assms by simp
  then have "999999 / 1000000 < (1 + eps) / (1 + 2 * eps)"
    using assms(1) by (simp add: field_simps)
  then show ?thesis
    by (simp only: eq)
qed

lemma worked_weights:
  assumes "0 < (eps::real)"
  shows "1 / (1 + eps) / (1 / (1 + eps) + 1 / (4 + eps)) + 1 / (4 + eps) / (1 / (1 + eps) + 1 / (4 + eps)) = 1"
    "\<bar>1 / (1 + eps) / (1 / (1 + eps) + 1 / (4 + eps)) - 4 / 5\<bar> < eps"
    "\<bar>1 / (4 + eps) / (1 / (1 + eps) + 1 / (4 + eps)) - 1 / 5\<bar> < eps"
proof -
  have nz: "1 + eps \<noteq> 0" "4 + eps \<noteq> 0" "5 + 2 * eps \<noteq> 0" "0 < 5 + 2 * eps"
    using assms by simp_all
  have s: "1 / (1 + eps) + 1 / (4 + eps) = (5 + 2 * eps) / ((1 + eps) * (4 + eps))"
    using nz by (simp add: add_frac_eq)
  have w1: "1 / (1 + eps) / (1 / (1 + eps) + 1 / (4 + eps)) = (4 + eps) / (5 + 2 * eps)"
    unfolding s using nz by simp
  have w2: "1 / (4 + eps) / (1 / (1 + eps) + 1 / (4 + eps)) = (1 + eps) / (5 + 2 * eps)"
    unfolding s using nz by simp
  show "1 / (1 + eps) / (1 / (1 + eps) + 1 / (4 + eps)) + 1 / (4 + eps) / (1 / (1 + eps) + 1 / (4 + eps)) = 1"
    unfolding w1 w2 using nz by (simp add: add_divide_distrib [symmetric])
  have d1: "(4 + eps) / (5 + 2 * eps) - 4 / 5 = - (3 * eps) / (5 * (5 + 2 * eps))"
    using nz by (simp add: diff_frac_eq)
  have d2: "(1 + eps) / (5 + 2 * eps) - 1 / 5 = (3 * eps) / (5 * (5 + 2 * eps))"
    using nz by (simp add: diff_frac_eq)
  have "eps * 3 < eps * (5 * (5 + 2 * eps))"
    using assms by (intro mult_strict_left_mono) simp_all
  then have "3 * eps < eps * (5 * (5 + 2 * eps))"
    by (simp add: mult.commute)
  moreover have "0 < 5 * (5 + 2 * eps)"
    using assms by simp
  ultimately have b2: "(3 * eps) / (5 * (5 + 2 * eps)) < eps"
    by (simp only: pos_divide_less_eq)
  have b1: "0 < (3 * eps) / (5 * (5 + 2 * eps))"
    using assms by simp
  note b = b1 b2
  show "\<bar>1 / (1 + eps) / (1 / (1 + eps) + 1 / (4 + eps)) - 4 / 5\<bar> < eps"
    unfolding w1 d1 using b by simp
  show "\<bar>1 / (4 + eps) / (1 / (1 + eps) + 1 / (4 + eps)) - 1 / 5\<bar> < eps"
    unfolding w2 d2 using b by simp
qed

subsection \<open>The scan of the gathered donors (lines 113 to 123)\<close>

lemma slot_in_buffers:
  fixes p j M nProcessor nDim :: nat
  assumes "p < nProcessor" "j < M"
  shows "p * M + j < nProcessor * M" "(p * M + j) * nDim + nDim \<le> nProcessor * M * nDim"
proof -
  have "p * M + j < Suc p * M" using assms by simp
  also have "\<dots> \<le> nProcessor * M" using assms by (intro mult_le_mono1) simp
  finally show 1: "p * M + j < nProcessor * M" .
  have "(p * M + j) * nDim + nDim = Suc (p * M + j) * nDim" by simp
  also have "\<dots> \<le> (nProcessor * M) * nDim" using 1 by (intro mult_le_mono1) simp
  finally show "(p * M + j) * nDim + nDim \<le> nProcessor * M * nDim" .
qed

lemma scan_donor_in:
  assumes "gathered b nProcessor nDim" "p < nProcessor" "j < MaxLocalVertex_Donor b"
    "k < length v"
  shows "scan_donor b nDim Coord_i p j (v, k) = Inr (v[k := candidate b nDim Coord_i p j], Suc k)"
  using assms slot_in_buffers(1) [OF assms(2,3)] slot_in_buffers(2) [OF assms(2,3), where nDim = nDim]
  by (simp add: scan_donor_def gathered_def rd_block_def wr_def candidate_def Let_def)

lemma scan_process_in:
  assumes "gathered b nProcessor nDim" "p < nProcessor" "n \<le> MaxLocalVertex_Donor b"
    "length done = k" "n \<le> length rest"
  shows "for_loop [0..<n] (scan_donor b nDim Coord_i p) (done @ rest, k) =
           Inr (done @ map (candidate b nDim Coord_i p) [0..<n] @ drop n rest, k + n)"
  using assms(3,5)
proof (induction n)
  case 0
  show ?case by simp
next
  case (Suc n)
  then have n: "n < MaxLocalVertex_Donor b" "n < length rest" by simp_all
  have len: "k + n < length (done @ map (candidate b nDim Coord_i p) [0..<n] @ drop n rest)"
    using n assms(4) by simp
  have upd: "(done @ map (candidate b nDim Coord_i p) [0..<n] @ drop n rest)[k + n := c] =
      done @ map (candidate b nDim Coord_i p) [0..<n] @ c # drop (Suc n) rest" for c
    using n assms(4) by (simp add: list_update_append flip: Cons_nth_drop_Suc)
  have snoc: "map (candidate b nDim Coord_i p) [0..<Suc n] =
      map (candidate b nDim Coord_i p) [0..<n] @ [candidate b nDim Coord_i p n]"
    by simp
  show ?case
    using n Suc.IH scan_donor_in [OF assms(1,2) n(1) len, where Coord_i = Coord_i] upd
    by (simp add: for_loop_upt_Suc snoc del: upt_Suc)
qed

lemma length_cands_upto:
  "P \<le> length (Buffer_Receive_nVertex_Donor b) \<Longrightarrow>
   length (cands_upto b nDim Coord_i P) = sum_list (take P (Buffer_Receive_nVertex_Donor b))"
proof (induction P)
  case 0
  show ?case by (simp add: cands_upto_def)
next
  case (Suc P)
  then show ?case
    by (simp add: cands_upto_def take_Suc_conv_app_nth)
qed

lemma length_candidates:
  "gathered b nProcessor nDim \<Longrightarrow>
   length (candidates b nProcessor nDim Coord_i) = nPossibleDonor b"
  by (simp add: candidates_def length_cands_upto gathered_def nPossibleDonor_def)

lemma scan_all_in:
  assumes "gathered b nProcessor nDim"
    "sum_list (Buffer_Receive_nVertex_Donor b) \<le> length v" "P \<le> nProcessor"
  shows "for_loop [0..<P]
           (\<lambda>iProcessor s.
              bindE (rd (Buffer_Receive_nVertex_Donor b) iProcessor) (\<lambda>n.
                for_loop [0..<n] (scan_donor b nDim Coord_i iProcessor) s))
           (v, 0)
         = Inr (cands_upto b nDim Coord_i P @ drop (sum_list (take P (Buffer_Receive_nVertex_Donor b))) v,
                sum_list (take P (Buffer_Receive_nVertex_Donor b)))"
  using assms(3)
proof (induction P)
  case 0
  show ?case by (simp add: cands_upto_def)
next
  case (Suc P)
  let ?cnt = "Buffer_Receive_nVertex_Donor b"
  from Suc.prems assms(1) have P: "P < nProcessor" "P < length ?cnt"
    by (simp_all add: gathered_def)
  then have le: "?cnt ! P \<le> MaxLocalVertex_Donor b"
    using assms(1) by (simp add: gathered_def)
  have "sum_list (take (Suc P) ?cnt) \<le> sum_list (take (Suc P) ?cnt) + sum_list (drop (Suc P) ?cnt)"
    by simp
  also have "\<dots> = sum_list ?cnt"
    by (metis append_take_drop_id sum_list_append)
  finally have "sum_list (take P ?cnt) + ?cnt ! P \<le> length v"
    using P assms(2) by (simp add: take_Suc_conv_app_nth)
  then have room: "?cnt ! P \<le> length (drop (sum_list (take P ?cnt)) v)"
    by simp
  have len: "length (cands_upto b nDim Coord_i P) = sum_list (take P ?cnt)"
    using P by (simp add: length_cands_upto)
  have step: "cands_upto b nDim Coord_i (Suc P) =
      cands_upto b nDim Coord_i P @ map (candidate b nDim Coord_i P) [0..<?cnt ! P]"
    by (simp add: cands_upto_def)
  show ?case
    using P Suc.IH scan_process_in [OF assms(1) P(1) le len room, of Coord_i]
    by (simp add: for_loop_upt_Suc step take_Suc_conv_app_nth add.commute del: upt_Suc)
qed

lemma compute_all_distances_in:
  assumes "gathered b nProcessor nDim" "length v = nPossibleDonor b"
  shows "compute_all_distances b nProcessor nDim Coord_i v = Inr (candidates b nProcessor nDim Coord_i)"
proof -
  have "take nProcessor (Buffer_Receive_nVertex_Donor b) = Buffer_Receive_nVertex_Donor b"
    using assms(1) by (simp add: gathered_def)
  then show ?thesis
    using scan_all_in [OF assms(1), of v nProcessor Coord_i] assms(2)
    by (simp add: compute_all_distances_def candidates_def nPossibleDonor_def)
qed

lemma PointsSquareDistance_nonneg: "0 \<le> PointsSquareDistance nDim point_i (point_j :: real list)"
  unfolding PointsSquareDistance_real
  by (rule sum_list_nonneg) auto

lemma dist'_candidate: "0 \<le> dist' (candidate b nDim (Coord_i :: real list) p j)"
  by (simp add: candidate_def DonorInfo_def Let_def PointsSquareDistance_nonneg)

lemma dist'_candidates:
  "d \<in> set (candidates b nProcessor nDim (Coord_i :: real list)) \<Longrightarrow> 0 \<le> dist' d"
  by (auto simp: candidates_def cands_upto_def dist'_candidate)

lemma same_donors_candidates:
  assumes "same_donors b b' nDim" "nProcessor \<le> length (Buffer_Receive_nVertex_Donor b)"
  shows "candidates b' nProcessor nDim Coord_i = candidates b nProcessor nDim Coord_i"
proof -
  have "candidate b' nDim Coord_i p j = candidate b nDim Coord_i p j"
    if "p < nProcessor" "j < Buffer_Receive_nVertex_Donor b ! p" for p j
    using that assms by (simp add: same_donors_def candidate_def Let_def)
  then show ?thesis
    using assms(1)
    by (auto simp: candidates_def cands_upto_def same_donors_def intro!: arg_cong [where f = concat])
qed

text \<open>A candidate's place in the scan is its process and its slot: the candidates of
  lower ranks come first.\<close>

lemma cands_upto_Suc:
  "cands_upto b nDim Coord_i (Suc P) =
   cands_upto b nDim Coord_i P @
   map (candidate b nDim Coord_i P) [0..<Buffer_Receive_nVertex_Donor b ! P]"
  by (simp add: cands_upto_def)

lemma cands_upto_nth:
  assumes "P \<le> length (Buffer_Receive_nVertex_Donor b)" "i < length (cands_upto b nDim Coord_i P)"
  shows "\<exists>p j. p < P \<and> j < Buffer_Receive_nVertex_Donor b ! p \<and>
           i = sum_list (take p (Buffer_Receive_nVertex_Donor b)) + j \<and>
           cands_upto b nDim Coord_i P ! i = candidate b nDim Coord_i p j"
  using assms
proof (induction P)
  case 0
  then show ?case by (simp add: cands_upto_def)
next
  case (Suc P)
  let ?cnt = "Buffer_Receive_nVertex_Donor b"
  have P: "P \<le> length ?cnt" "P < length ?cnt"
    using Suc.prems(1) by simp_all
  have len: "length (cands_upto b nDim Coord_i P) = sum_list (take P ?cnt)"
    using P(1) by (rule length_cands_upto)
  show ?case
  proof (cases "i < length (cands_upto b nDim Coord_i P)")
    case True
    from Suc.IH [OF P(1) True] obtain p j where
      pj: "p < P" "j < ?cnt ! p" "i = sum_list (take p ?cnt) + j"
        "cands_upto b nDim Coord_i P ! i = candidate b nDim Coord_i p j"
      by blast
    have "cands_upto b nDim Coord_i (Suc P) ! i = candidate b nDim Coord_i p j"
      using True pj(4) by (simp add: cands_upto_Suc nth_append)
    moreover have "p < Suc P"
      using pj(1) by simp
    ultimately show ?thesis
      using pj(2,3) by blast
  next
    case False
    let ?j = "i - sum_list (take P ?cnt)"
    have j: "?j < ?cnt ! P"
      using False Suc.prems(2) len by (simp add: cands_upto_Suc)
    have i: "i = sum_list (take P ?cnt) + ?j"
      using False len by simp
    have "cands_upto b nDim Coord_i (Suc P) ! i = candidate b nDim Coord_i P ?j"
      using False j len by (simp add: cands_upto_Suc nth_append)
    then show ?thesis
      using j i by blast
  qed
qed

lemma offset_mono:
  fixes cnt :: "nat list"
  assumes "p \<le> q" "q \<le> length cnt"
  shows "sum_list (take p cnt) \<le> sum_list (take q cnt)"
proof -
  have "take q cnt = take p cnt @ take (q - p) (drop p cnt)"
    using assms by (metis le_add_diff_inverse take_add)
  then show ?thesis
    by simp
qed

lemma offset_less:
  fixes cnt :: "nat list"
  assumes "p < q" "q \<le> length cnt" "j < cnt ! p"
  shows "sum_list (take p cnt) + j < sum_list (take q cnt)"
proof -
  have "sum_list (take p cnt) + j < sum_list (take (Suc p) cnt)"
    using assms by (simp add: take_Suc_conv_app_nth)
  also have "\<dots> \<le> sum_list (take q cnt)"
    using assms by (intro offset_mono) simp_all
  finally show ?thesis .
qed

lemma cands_upto_index:
  assumes "P \<le> length (Buffer_Receive_nVertex_Donor b)" "p < P" "j < Buffer_Receive_nVertex_Donor b ! p"
  shows "sum_list (take p (Buffer_Receive_nVertex_Donor b)) + j < length (cands_upto b nDim Coord_i P) \<and>
         cands_upto b nDim Coord_i P ! (sum_list (take p (Buffer_Receive_nVertex_Donor b)) + j) =
           candidate b nDim Coord_i p j"
  using assms
proof (induction P)
  case 0
  then show ?case by simp
next
  case (Suc P)
  let ?cnt = "Buffer_Receive_nVertex_Donor b"
  have P: "P \<le> length ?cnt" "P < length ?cnt"
    using Suc.prems(1) by simp_all
  have len: "length (cands_upto b nDim Coord_i P) = sum_list (take P ?cnt)"
    using P(1) by (rule length_cands_upto)
  show ?case
  proof (cases "p = P")
    case True
    then show ?thesis
      using Suc.prems(3) len by (simp add: cands_upto_Suc nth_append)
  next
    case False
    then have "p < P" using Suc.prems(2) by simp
    from Suc.IH [OF P(1) this Suc.prems(3)] show ?thesis
      by (simp add: cands_upto_Suc nth_append)
  qed
qed

subsection \<open>The contract of partial_sort (lines 126 and 127)\<close>

lemma find_k_closest_out:
  "find_k_closest psort nDonor xs = Inl OutOfBounds \<longleftrightarrow> length xs < nDonor"
  by (auto simp: find_k_closest_def)

lemma partial_sort_post_length: "partial_sort_post k xs ys \<Longrightarrow> length ys = length xs"
  by (auto simp: partial_sort_post_def dest: mset_eq_length)

lemma partial_sort_post_set: "partial_sort_post k xs ys \<Longrightarrow> set ys = set xs"
  by (auto simp: partial_sort_post_def dest: mset_eq_setD)

lemma contract_post:
  "partial_sort_contract psort \<Longrightarrow> k \<le> length xs \<Longrightarrow> partial_sort_post k xs (psort k xs)"
  by (simp add: partial_sort_contract_def)

lemma selected_distances:
  assumes "partial_sort_post k xs ys" "k \<le> length xs"
  shows "map dist' (take k ys) = take k (sort (map dist' xs))"
proof -
  let ?zs = "take k ys @ sort_key dist' (drop k ys)"
  have len: "length ys = length xs"
    using assms(1) by (rule partial_sort_post_length)
  have "mset ?zs = mset (take k ys) + mset (drop k ys)"
    by simp
  also have "\<dots> = mset ys"
    by (metis append_take_drop_id mset_append)
  also have "\<dots> = mset xs"
    using assms(1) by (simp add: partial_sort_post_def)
  finally have "image_mset dist' (mset ?zs) = image_mset dist' (mset xs)"
    by (rule arg_cong)
  then have m: "mset (map dist' ?zs) = mset (map dist' xs)"
    by (simp only: mset_map)
  have s: "sorted (map dist' ?zs)"
    using assms(1) by (auto simp: partial_sort_post_def sorted_append)
  have "sort (map dist' xs) = map dist' ?zs"
    using m s by (rule properties_for_sort)
  then show ?thesis
    using assms(2) len by simp
qed

lemma hd_nearest:
  assumes "partial_sort_post k xs ys" "1 \<le> k" "k \<le> length xs" "c \<in> set xs"
  shows "dist' (hd ys) \<le> dist' c"
proof -
  have len: "length ys = length xs"
    using assms(1) by (rule partial_sort_post_length)
  then have ne: "take k ys \<noteq> []"
    using assms(2,3) by auto
  have "hd (take k ys) = hd ys"
    using assms(2) by (simp add: hd_take)
  then have hd: "hd (take k ys) = hd ys" "hd ys \<in> set (take k ys)"
    using hd_in_set [OF ne] by simp_all
  have "c \<in> set (take k ys) \<union> set (drop k ys)"
    using assms(4) partial_sort_post_set [OF assms(1)]
    by (metis append_take_drop_id set_append)
  then show ?thesis
  proof
    assume "c \<in> set (take k ys)"
    then have "dist' c \<in> set (map dist' (take k ys))"
      by simp
    moreover have "sorted (map dist' (take k ys))"
      using assms(1) by (simp add: partial_sort_post_def)
    ultimately have "hd (map dist' (take k ys)) \<le> dist' c"
      using ne by (cases "take k ys") auto
    then show ?thesis
      using ne hd(1) by (simp add: hd_map)
  next
    assume "c \<in> set (drop k ys)"
    then show ?thesis
      using assms(1) hd(2) by (simp add: partial_sort_post_def)
  qed
qed

lemma map_eq_two:
  assumes "map f zs = [a, b]"
  obtains x y where "zs = [x, y]" "f x = a" "f y = b"
  using assms by (auto simp: map_eq_Cons_conv)

lemma sorted_take_drop:
  assumes "sorted (map f zs)"
  shows "sorted (map f (take k zs)) \<and> (\<forall>a \<in> set (take k zs). \<forall>b \<in> set (drop k zs). f a \<le> f b)"
proof -
  have "sorted (map f (take k zs) @ map f (drop k zs))"
    using assms by (simp flip: map_append)
  then show ?thesis
    by (auto simp: sorted_append)
qed

lemma partial_sort_stable_contract: "partial_sort_contract partial_sort_stable"
  unfolding partial_sort_contract_def partial_sort_post_def partial_sort_stable_def
proof (intro allI impI)
  fix k :: nat and xs :: "real DonorInfo list"
  show "mset (sort_key dist' xs) = mset xs \<and>
    sorted (map dist' (take k (sort_key dist' xs))) \<and>
    (\<forall>a\<in>set (take k (sort_key dist' xs)). \<forall>b\<in>set (drop k (sort_key dist' xs)). dist' a \<le> dist' b)"
    using sorted_take_drop [of dist' "sort_key dist' xs" k] by simp
qed

subsection \<open>The partial sort of the standard library, with one element to select\<close>

lemma push_heap_loop_top:
  "holeIndex \<le> topIndex \<Longrightarrow> push_heap_loop cmp topIndex val (first, holeIndex) = (first, holeIndex)"
  by (subst push_heap_loop.simps) simp

lemma adjust_heap_loop_leaf:
  "(len - 1) div 2 \<le> secondChild \<Longrightarrow>
   adjust_heap_loop cmp len (first, holeIndex, secondChild) = (first, holeIndex, secondChild)"
  by (subst adjust_heap_loop.simps) simp

lemma std_pop_heap_one:
  "std_pop_heap cmp first (Suc 0) i = first[i := first ! 0, 0 := first ! i]"
  by (simp add: std_pop_heap_def std_adjust_heap_def std_push_heap_def push_heap_loop_top
      adjust_heap_loop_leaf)

lemma heap_select_one_loop:
  fixes f :: "'a \<Rightarrow> 'b::linorder"
  assumes "n \<le> length xs" "1 \<le> n"
  shows "\<exists>ys j. fold (\<lambda>i first. if f (first ! i) < f (first ! 0) then std_pop_heap (\<lambda>a b. f a < f b) first (Suc 0) i else first)
           [1..<n] xs = ys \<and>
         length ys = length xs \<and> j < n \<and> ys ! 0 = xs ! j \<and>
         (\<forall>m. n \<le> m \<longrightarrow> ys ! m = xs ! m) \<and>
         (\<forall>m < n. f (xs ! j) \<le> f (xs ! m)) \<and> (\<forall>m < j. f (xs ! j) < f (xs ! m))"
  using assms
proof (induction n)
  case 0
  then show ?case by simp
next
  case (Suc n)
  show ?case
  proof (cases "n = 0")
    case True
    then show ?thesis by simp
  next
    case False
    then have n: "1 \<le> n" "n \<le> length xs" "n < length xs"
      using Suc.prems by simp_all
    let ?step = "\<lambda>i first. if f (first ! i) < f (first ! 0) then std_pop_heap (\<lambda>a b. f a < f b) first (Suc 0) i else first"
    from Suc.IH [OF n(2,1)] obtain ys j where
      ys: "fold ?step [1..<n] xs = ys" "length ys = length xs" "j < n" "ys ! 0 = xs ! j"
        "\<forall>m. n \<le> m \<longrightarrow> ys ! m = xs ! m"
        "\<forall>m < n. f (xs ! j) \<le> f (xs ! m)" "\<forall>m < j. f (xs ! j) < f (xs ! m)"
      by blast
    have upt: "[1..<Suc n] = [1..<n] @ [n]"
      using n(1) by simp
    have run: "fold ?step [1..<Suc n] xs = ?step n ys"
      unfolding upt using ys(1) by simp
    have yn: "ys ! n = xs ! n"
      using ys(5) by simp
    have le: "f (xs ! j) \<le> f (xs ! m)" if "m < n" for m
      using ys(6) that by simp
    show ?thesis
    proof (cases "f (xs ! n) < f (xs ! j)")
      case True
      let ?zs = "ys[n := ys ! 0, 0 := ys ! n]"
      have 1: "fold ?step [1..<Suc n] xs = ?zs"
        unfolding run using True yn ys(4) by (simp add: std_pop_heap_one)
      have 2: "length ?zs = length xs"
        using ys(2) by simp
      have "0 < length (ys[n := ys ! 0])"
        using ys(2) n by auto
      then have 3: "?zs ! 0 = xs ! n"
        using yn by simp
      have 4: "\<forall>m. Suc n \<le> m \<longrightarrow> ?zs ! m = xs ! m"
        using ys(5) by simp
      have "f (xs ! n) \<le> f (xs ! m)" if "m < Suc n" for m
      proof (cases "m = n")
        case True
        then show ?thesis by simp
      next
        case False
        then have "m < n" using that by simp
        then have "f (xs ! j) \<le> f (xs ! m)" by (rule le)
        then show ?thesis using True by (rule less_imp_le [OF less_le_trans, rotated])
      qed
      then have 5: "\<forall>m < Suc n. f (xs ! n) \<le> f (xs ! m)"
        by blast
      have "f (xs ! n) < f (xs ! m)" if "m < n" for m
        using True le [OF that] by (rule less_le_trans)
      then have 6: "\<forall>m < n. f (xs ! n) < f (xs ! m)"
        by blast
      have 0: "n < Suc n" by simp
      show ?thesis
        by (intro exI [of _ ?zs] exI [of _ n] conjI 1 2 0 3 4 5 6)
    next
      case False
      have 1: "fold ?step [1..<Suc n] xs = ys"
        unfolding run using False yn ys(4) by simp
      have "f (xs ! j) \<le> f (xs ! m)" if "m < Suc n" for m
      proof (cases "m = n")
        case True
        then show ?thesis using False by simp
      next
        case F: False
        then have "m < n" using that by simp
        then show ?thesis by (rule le)
      qed
      then have 5: "\<forall>m < Suc n. f (xs ! j) \<le> f (xs ! m)"
        by blast
      have 4: "\<forall>m. Suc n \<le> m \<longrightarrow> ys ! m = xs ! m"
        using ys(5) by simp
      have 0: "j < Suc n" using ys(3) by simp
      show ?thesis
        by (intro exI [of _ ys] exI [of _ j] conjI 1 ys(2) 0 ys(4) 4 5 ys(7))
    qed
  qed
qed

lemma std_partial_sort_one:
  fixes f :: "'a \<Rightarrow> 'b::linorder"
  assumes "xs \<noteq> []"
  shows "\<exists>j < length xs.
         length (std_partial_sort (\<lambda>a b. f a < f b) 1 xs) = length xs \<and>
         std_partial_sort (\<lambda>a b. f a < f b) 1 xs ! 0 = xs ! j \<and>
         (\<forall>m < length xs. f (xs ! j) \<le> f (xs ! m)) \<and> (\<forall>m < j. f (xs ! j) < f (xs ! m))"
proof -
  have n: "length xs \<le> length xs" "1 \<le> length xs"
    using assms by (simp_all add: Suc_le_eq)
  have eq: "std_partial_sort (\<lambda>a b. f a < f b) 1 xs =
      fold (\<lambda>i first. if f (first ! i) < f (first ! 0) then std_pop_heap (\<lambda>a b. f a < f b) first (Suc 0) i else first)
           [1..<length xs] xs"
    by (simp add: std_partial_sort_def std_sort_heap_def std_heap_select_def std_make_heap_def)
  from heap_select_one_loop [OF n, of f] obtain ys j where
    r: "fold (\<lambda>i first. if f (first ! i) < f (first ! 0) then std_pop_heap (\<lambda>a b. f a < f b) first (Suc 0) i else first)
           [1..<length xs] xs = ys" "length ys = length xs" "j < length xs" "ys ! 0 = xs ! j"
       "\<forall>m < length xs. f (xs ! j) \<le> f (xs ! m)" "\<forall>m < j. f (xs ! j) < f (xs ! m)"
    by blast
  show ?thesis
    unfolding eq r(1) using r(2-) by blast
qed

subsection \<open>The weights (lines 130 to 134)\<close>

lemma compute_numerators_in:
  "nDonor \<le> length v \<Longrightarrow>
   compute_numerators nDonor eps v =
     Inr (map (weigh eps) (take nDonor v) @ drop nDonor v, denom_of nDonor eps v)"
  unfolding compute_numerators_def denom_of_def
proof (induction nDonor)
  case 0
  show ?case by simp
next
  case (Suc n)
  then have n: "n < length v" by simp
  have upd: "(map (weigh eps) (take n v) @ drop n v)[n := (v ! n)\<lparr>dist' := 1 / (dist' (v ! n) + eps)\<rparr>]
      = map (weigh eps) (take (Suc n) v) @ drop (Suc n) v"
    using n by (simp add: list_update_append take_Suc_conv_app_nth weigh_def
        flip: Cons_nth_drop_Suc)
  have nth: "(map (weigh eps) (take n v) @ drop n v) ! n = v ! n"
    using n by (simp add: nth_append)
  show ?case
    using n Suc.IH upd nth
    by (simp add: for_loop_upt_Suc take_Suc_conv_app_nth Let_def del: upt_Suc)
qed

lemma compute_numerators_out:
  assumes "length v < nDonor"
  shows "compute_numerators nDonor eps v = Inl OutOfBounds"
  unfolding compute_numerators_def upt_split_at [OF assms] for_loop_append
  using compute_numerators_in [of "length v" v eps, unfolded compute_numerators_def]
  by simp

lemma compute_numerators_out_iff:
  "compute_numerators nDonor eps xs = Inl OutOfBounds \<longleftrightarrow> length xs < nDonor"
  using compute_numerators_in [of nDonor xs eps] compute_numerators_out [of xs nDonor eps]
  by (cases "nDonor \<le> length xs") auto

lemma denom_of_pos:
  fixes eps :: real
  assumes "0 < eps" "1 \<le> nDonor" "nDonor \<le> length ys" "\<forall>d \<in> set ys. 0 \<le> dist' d"
  shows "0 < denom_of nDonor eps ys"
proof -
  have ne: "take nDonor ys \<noteq> []"
    using assms(2,3) by auto
  have "0 < 1 / (dist' d + eps)" if "d \<in> set (take nDonor ys)" for d
    using that assms(1,4) by (auto dest!: in_set_takeD intro: add_nonneg_pos)
  then show ?thesis
    unfolding denom_of_real using ne
    by (intro sum_list_map_pos)
qed

subsection \<open>The record (lines 137 to 143)\<close>

lemma set_slot:
  "length A = n \<Longrightarrow>
   bindE (SetInterpDonorPoint n (pidx d) (tv\<lparr>Donor := A @ empty_slot # B\<rparr>)) (\<lambda>v.
   bindE (SetInterpDonorProcessor n (proc d) v) (\<lambda>v.
     SetDonorCoeff n (dist' d / denom) v))
   = Inr (tv\<lparr>Donor := A @ slot_of denom d # B\<rparr>)"
  by (simp add: SetInterpDonorPoint_def SetInterpDonorProcessor_def SetDonorCoeff_def
      nth_append list_update_append slot_of_def empty_slot_def)

lemma set_coefficients_loop:
  "n \<le> nDonor \<Longrightarrow> n \<le> length di \<Longrightarrow>
   for_loop [0..<n]
       (\<lambda>iDonor v.
          bindE (rd di iDonor) (\<lambda>d.
          bindE (SetInterpDonorPoint iDonor (pidx d) v) (\<lambda>v.
          bindE (SetInterpDonorProcessor iDonor (proc d) v) (\<lambda>v.
            SetDonorCoeff iDonor (dist' d / denom) v))))
       (Allocate_DonorInfo nDonor tv)
   = Inr (tv\<lparr>Donor := map (slot_of denom) (take n di) @ replicate (nDonor - n) empty_slot\<rparr>)"
proof (induction n)
  case 0
  show ?case by (simp add: Allocate_DonorInfo_def empty_slot_def)
next
  case (Suc n)
  then have n: "n < nDonor" "n < length di" by simp_all
  have rep: "replicate (nDonor - n) empty_slot = empty_slot # replicate (nDonor - Suc n) empty_slot"
    using n by (metis Suc_diff_Suc replicate_Suc)
  have len: "length (map (slot_of denom) (take n di)) = n"
    using n by simp
  show ?case
    using n Suc.IH set_slot [OF len, where d = "di ! n" and tv = tv and denom = denom
          and B = "replicate (nDonor - Suc n) empty_slot"]
    by (simp add: for_loop_upt_Suc take_Suc_conv_app_nth rep del: upt_Suc replicate_Suc)
qed

lemma set_coefficients_in:
  "nDonor \<le> length di \<Longrightarrow>
   set_coefficients nDonor di denom tv = Inr (tv\<lparr>Donor := map (slot_of denom) (take nDonor di)\<rparr>)"
  unfolding set_coefficients_def
  using set_coefficients_loop [of nDonor nDonor di denom tv] by simp

lemma set_coefficients_out:
  assumes "length di < nDonor"
  shows "set_coefficients nDonor di denom tv = Inl OutOfBounds"
  unfolding set_coefficients_def upt_split_at [OF assms] for_loop_append
  using set_coefficients_loop [of "length di" nDonor di denom tv] assms
  by simp

lemma set_coefficients_out_iff:
  "set_coefficients nDonor xs denom tv = Inl OutOfBounds \<longleftrightarrow> length xs < nDonor"
  using set_coefficients_in [of nDonor xs denom tv] set_coefficients_out [of xs nDonor denom tv]
  by (cases "nDonor \<le> length xs") auto

lemma DonorCoeff_record_of:
  "map DonorCoeff (record_of nDonor eps ys) =
     map Some (map (\<lambda>d. 1 / (dist' d + eps) / denom_of nDonor eps ys) (take nDonor ys))"
  by (simp add: record_of_def slot_of_def weigh_def)

lemma coeffs_from_distances:
  fixes eps :: real
  shows "map DonorCoeff (record_of nDonor eps ys) =
     map (\<lambda>d. Some (1 / (d + eps) / (\<Sum>e \<leftarrow> map dist' (take nDonor ys). 1 / (e + eps))))
       (map dist' (take nDonor ys))"
  by (simp add: record_of_def slot_of_def weigh_def denom_of_real o_def)

lemma points_record_of:
  "map InterpDonorPoint (record_of nDonor eps ys) = map (\<lambda>d. Some (unat (pidx d))) (take nDonor ys)"
  by (simp add: record_of_def slot_of_def weigh_def)

lemma procs_record_of:
  "map InterpDonorProcessor (record_of nDonor eps ys) = map (\<lambda>d. Some (proc d)) (take nDonor ys)"
  by (simp add: record_of_def slot_of_def weigh_def)

lemma written_record_of: "s \<in> set (record_of nDonor eps ys) \<Longrightarrow> written s"
  by (auto simp: record_of_def slot_of_def written_def)

lemma length_record_of: "nDonor \<le> length ys \<Longrightarrow> length (record_of nDonor eps ys) = nDonor"
  by (simp add: record_of_def)

lemma record_of_normalised:
  fixes eps :: real
  assumes "0 < eps" "1 \<le> nDonor" "nDonor \<le> length ys" "\<forall>d \<in> set ys. 0 \<le> dist' d"
  shows "normalised_record nDonor (record_of nDonor eps ys)"
proof -
  let ?D = "denom_of nDonor eps ys"
  let ?ws = "map (\<lambda>d. 1 / (dist' d + eps) / ?D) (take nDonor ys)"
  have pos: "0 < ?D"
    using assms by (rule denom_of_pos)
  have w: "0 < 1 / (dist' d + eps)" if "d \<in> set (take nDonor ys)" for d
    using that assms(1,4) by (auto dest!: in_set_takeD intro: add_nonneg_pos)
  have "0 < x" if "x \<in> set ?ws" for x
  proof -
    from that obtain d where d: "d \<in> set (take nDonor ys)" "x = 1 / (dist' d + eps) / ?D"
      by auto
    show ?thesis
      unfolding d(2) by (rule ratio_pos [OF pos w [OF d(1)]])
  qed
  moreover have "sum_list ?ws = 1"
  proof -
    have "sum_list ?ws = (\<Sum>d\<leftarrow>take nDonor ys. 1 / (dist' d + eps)) / ?D"
      by (simp only: map_map o_def sum_list_divide)
    also have "\<dots> = ?D / ?D"
      by (simp only: denom_of_real)
    also have "\<dots> = 1"
      using pos by simp
    finally show ?thesis .
  qed
  ultimately have "\<exists>ws. map DonorCoeff (record_of nDonor eps ys) = map Some ws \<and>
      (\<forall>w \<in> set ws. 0 < w) \<and> sum_list ws = 1"
    using DonorCoeff_record_of [of nDonor eps ys] by blast
  then show ?thesis
    unfolding normalised_record_def
    using assms(3) by (simp add: length_record_of written_record_of)
qed

subsection \<open>One target vertex (lines 104 to 143)\<close>

lemma target_vertex_body_halo:
  "\<not> GetDomain (nodes (GetNode tv)) \<Longrightarrow>
   target_vertex_body psort nDonor eps b nProcessor nDim nodes (v, tv) = Inr (v, tv)"
  by (simp add: target_vertex_body_def)

lemma target_vertex_body_owned:
  assumes "gathered b nProcessor nDim" "length v = nPossibleDonor b"
    "partial_sort_contract psort" "GetDomain (nodes (GetNode tv))"
  shows "target_vertex_body psort nDonor eps b nProcessor nDim nodes (v, tv) =
     (if nDonor \<le> nPossibleDonor b then
        let ys = psort nDonor (candidates b nProcessor nDim (GetCoord (nodes (GetNode tv))))
        in Inr (map (weigh eps) (take nDonor ys) @ drop nDonor ys,
                tv\<lparr>Donor := record_of nDonor eps ys\<rparr>)
      else Inl OutOfBounds)"
proof (cases "nDonor \<le> nPossibleDonor b")
  case False
  then show ?thesis
    using assms
    by (simp add: target_vertex_body_def compute_all_distances_in find_k_closest_def
        length_candidates)
next
  case True
  let ?xs = "candidates b nProcessor nDim (GetCoord (nodes (GetNode tv)))"
  have xs: "nDonor \<le> length ?xs"
    using True assms(1) by (simp add: length_candidates)
  have "length (psort nDonor ?xs) = length ?xs"
    using contract_post [OF assms(3) xs] by (rule partial_sort_post_length)
  then have ys: "nDonor \<le> length (psort nDonor ?xs)"
    using xs by simp
  then have w: "nDonor \<le> length (map (weigh eps) (take nDonor (psort nDonor ?xs)) @ drop nDonor (psort nDonor ?xs))"
    by simp
  show ?thesis
    using True assms xs ys
    by (simp add: target_vertex_body_def compute_all_distances_in find_k_closest_def
        compute_numerators_in set_coefficients_in [OF w] record_of_def Let_def)
qed

text \<open>The search as far as it depends on \<open>psort\<close> only through the length of its result.\<close>

lemma target_vertex_body_run:
  assumes "gathered b nProcessor nDim" "length v = nPossibleDonor b"
    "GetDomain (nodes (GetNode tv))" "nDonor \<le> nPossibleDonor b"
    "length (psort nDonor (candidates b nProcessor nDim (GetCoord (nodes (GetNode tv))))) = nPossibleDonor b"
  shows "target_vertex_body psort nDonor eps b nProcessor nDim nodes (v, tv) =
     (let ys = psort nDonor (candidates b nProcessor nDim (GetCoord (nodes (GetNode tv))))
      in Inr (map (weigh eps) (take nDonor ys) @ drop nDonor ys,
              tv\<lparr>Donor := record_of nDonor eps ys\<rparr>))"
proof -
  let ?xs = "candidates b nProcessor nDim (GetCoord (nodes (GetNode tv)))"
  have xs: "nDonor \<le> length ?xs"
    using assms(1,4) by (simp add: length_candidates)
  have ys: "nDonor \<le> length (psort nDonor ?xs)"
    using assms(4,5) by simp
  then have w: "nDonor \<le> length (map (weigh eps) (take nDonor (psort nDonor ?xs)) @ drop nDonor (psort nDonor ?xs))"
    by simp
  show ?thesis
    using assms(1-3) xs ys
    by (simp add: target_vertex_body_def compute_all_distances_in find_k_closest_def
        compute_numerators_in set_coefficients_in [OF w] record_of_def Let_def)
qed

text \<open>What a run that returns says of its input and its result.\<close>

lemma target_vertex_body_Inr:
  assumes "gathered b nProcessor nDim" "length v = nPossibleDonor b"
    "partial_sort_contract psort" "GetDomain (nodes (GetNode tv))"
    "target_vertex_body psort nDonor eps b nProcessor nDim nodes (v, tv) = Inr (v', tv')"
  defines "ys \<equiv> psort nDonor (candidates b nProcessor nDim (GetCoord (nodes (GetNode tv))))"
  shows "nDonor \<le> nPossibleDonor b" "tv' = tv\<lparr>Donor := record_of nDonor eps ys\<rparr>"
    "partial_sort_post nDonor (candidates b nProcessor nDim (GetCoord (nodes (GetNode tv)))) ys"
proof -
  show le: "nDonor \<le> nPossibleDonor b"
    using assms(5) target_vertex_body_owned [where nodes = nodes and tv = tv, OF assms(1-4), of nDonor eps]
    by (simp split: if_splits)
  then show "tv' = tv\<lparr>Donor := record_of nDonor eps ys\<rparr>"
    using assms(5) target_vertex_body_owned [where nodes = nodes and tv = tv, OF assms(1-4), of nDonor eps]
    by (simp add: ys_def Let_def)
  show "partial_sort_post nDonor (candidates b nProcessor nDim (GetCoord (nodes (GetNode tv)))) ys"
    unfolding ys_def using le assms(1,3)
    by (intro contract_post) (simp_all add: length_candidates)
qed

lemma same_donors_run:
  assumes "gathered b nProcessor nDim" "gathered b' nProcessor nDim" "same_donors b b' nDim"
    "length v = nPossibleDonor b" "partial_sort_contract psort" "GetDomain (nodes (GetNode tv))"
  shows "target_vertex_body psort nDonor eps b' nProcessor nDim nodes (v, tv) =
         target_vertex_body psort nDonor eps b nProcessor nDim nodes (v, tv)"
proof -
  have n: "nPossibleDonor b' = nPossibleDonor b"
    using assms(3) by (simp add: same_donors_def nPossibleDonor_def)
  have c: "candidates b' nProcessor nDim c = candidates b nProcessor nDim c" for c
    using assms(1,3) by (intro same_donors_candidates) (simp_all add: gathered_def)
  show ?thesis
    using assms(4)
    by (simp add: n c
        target_vertex_body_owned [where nodes = nodes and tv = tv, OF assms(1) _ assms(5,6)]
        target_vertex_body_owned [where nodes = nodes and tv = tv, OF assms(2) _ assms(5,6)])
qed

lemma target_vertex_body_length:
  assumes "gathered b nProcessor nDim" "partial_sort_contract psort" "length v = nPossibleDonor b"
    "target_vertex_body psort nDonor eps b nProcessor nDim nodes (v, tv) = Inr (v', tv')"
  shows "length v' = nPossibleDonor b"
proof (cases "GetDomain (nodes (GetNode tv))")
  case False
  then show ?thesis
    using assms(3,4) by (simp add: target_vertex_body_halo)
next
  case True
  note r = target_vertex_body_Inr [where nodes = nodes and tv = tv, OF assms(1,3,2) True assms(4)]
  let ?ys = "psort nDonor (candidates b nProcessor nDim (GetCoord (nodes (GetNode tv))))"
  have len: "length ?ys = nPossibleDonor b"
    using partial_sort_post_length [OF r(3)] assms(1) by (simp add: length_candidates)
  have "v' = map (weigh eps) (take nDonor ?ys) @ drop nDonor ?ys"
    using assms(4) r(1)
    unfolding target_vertex_body_owned [where nodes = nodes and tv = tv, OF assms(1,3,2) True]
    by (simp add: Let_def)
  then show ?thesis
    using len r(1) by simp
qed

lemma target_vertex_body_slots:
  assumes "target_vertex_body psort nDonor eps b nProcessor nDim nodes (v, tv) = Inr (v', tv')"
  shows "tv' = tv \<or> length (Donor tv') = nDonor"
proof (cases "GetDomain (nodes (GetNode tv))")
  case False
  then show ?thesis
    using assms by (simp add: target_vertex_body_halo)
next
  case True
  from assms True obtain di denom where w: "set_coefficients nDonor di denom tv = Inr tv'"
    unfolding target_vertex_body_def by (auto simp: bindE_eq_Inr Let_def)
  then have "nDonor \<le> length di"
    using set_coefficients_out [of di nDonor denom tv] by (cases "nDonor \<le> length di") simp_all
  then show ?thesis
    using w by (auto simp: set_coefficients_in)
qed

lemma target_vertex_body_record:
  assumes "gathered b nProcessor nDim" "length v = nPossibleDonor b"
    "partial_sort_contract psort" "0 < eps" "1 \<le> nDonor"
    "target_vertex_body psort nDonor eps b nProcessor nDim nodes (v, tv) = Inr (v', tv')"
  shows "tv' = tv \<or> normalised_record nDonor (Donor tv')"
proof (cases "GetDomain (nodes (GetNode tv))")
  case False
  then show ?thesis
    using assms(6) by (simp add: target_vertex_body_halo)
next
  case True
  note r = target_vertex_body_Inr [where nodes = nodes and tv = tv, OF assms(1-3) True assms(6)]
  let ?ys = "psort nDonor (candidates b nProcessor nDim (GetCoord (nodes (GetNode tv))))"
  have len: "nDonor \<le> length ?ys"
    using partial_sort_post_length [OF r(3)] assms(1) r(1) by (simp add: length_candidates)
  have "\<forall>d \<in> set ?ys. 0 \<le> dist' d"
    unfolding partial_sort_post_set [OF r(3)] by (auto dest: dist'_candidates)
  then have "normalised_record nDonor (record_of nDonor eps ?ys)"
    by (rule record_of_normalised [OF assms(4,5) len])
  then show ?thesis
    by (simp add: r(2))
qed

subsection \<open>The loops of the pass\<close>

text \<open>What one returning iteration of the loop over the target vertices does.\<close>

lemma target_loop_body_Inr:
  assumes "target_loop_body psort nDonor eps b nProcessor nDim nodes i (v, verts) = Inr (v', verts')"
  obtains tv' where "i < length verts"
    "target_vertex_body psort nDonor eps b nProcessor nDim nodes (v, verts ! i) = Inr (v', tv')"
    "verts' = verts[i := tv']"
  using assms
  by (auto simp: target_loop_body_def rd_def bindE_eq_Inr split: if_splits)

text \<open>What one returning iteration of the loop over the interface markers does.\<close>

lemma marker_body_Inr:
  assumes "marker_body C config_donor config_target g nDonor eps nProcessor iMarkerInt st = Inr st'"
  defines "markDonor \<equiv> Find_InterfaceMarker config_donor iMarkerInt"
    and "markTarget \<equiv> Find_InterfaceMarker config_target iMarkerInt"
  defines "b \<equiv> gather C nProcessor (GetnDim g) iMarkerInt markDonor markTarget
                 (if markDonor \<noteq> - 1 then GetnVertex_donor g markDonor else 0)"
  obtains (skipped) "\<not> CheckInterfaceBoundary C markDonor markTarget" "st' = st"
  | (processed) v' verts' where "CheckInterfaceBoundary C markDonor markTarget"
      "for_loop [0..<if markTarget \<noteq> - 1 then length (vertex st markTarget) else 0]
         (target_loop_body (partial_sort C) nDonor eps b nProcessor (GetnDim g) (node g))
         (resize (nPossibleDonor b) (DonorInfoVec st), vertex st markTarget) = Inr (v', verts')"
      "st' = st\<lparr>vertex := (vertex st)(markTarget := verts'), DonorInfoVec := v',
          events := events st @ marker_events iMarkerInt nProcessor (MaxLocalVertex_Donor b) (GetnDim g)\<rparr>"
  using assms(1) unfolding marker_body_def markDonor_def markTarget_def b_def Let_def
  by (auto simp: bindE_eq_Inr split: if_splits)

text \<open>A relation \<open>Q\<close> between a vertex before and after that is reflexive and transitive and
  that every returning search respects, holds between every vertex before and after the
  whole pass.\<close>

lemma target_loop_vertexwise:
  fixes eps :: real
  assumes refl: "\<And>tv. Q tv tv"
    and trans: "\<And>x y z. Q x y \<Longrightarrow> Q y z \<Longrightarrow> Q x z"
    and step: "\<And>v tv v' tv'.
      target_vertex_body psort nDonor eps b nProcessor nDim nodes (v, tv) = Inr (v', tv') \<Longrightarrow> Q tv tv'"
    and run: "for_loop is (target_loop_body psort nDonor eps b nProcessor nDim nodes) (v, verts) = Inr (v', verts')"
  shows "list_all2 Q verts verts'"
proof -
  let ?R = "\<lambda>s s'. list_all2 Q (snd s) (snd s')"
  have "?R (v, verts) (v', verts')"
  proof (rule for_loop_rel [where R = ?R, OF _ _ _ run])
    show "?R s s" for s :: "real DonorInfo list \<times> real CVertex list"
      by (simp add: list_all2_refl refl)
    show "?R s s''" if "?R s s'" "?R s' s''" for s s' s'' :: "real DonorInfo list \<times> real CVertex list"
      by (rule list_all2_trans [OF _ that]) (rule trans)
    show "?R s s'"
      if "target_loop_body psort nDonor eps b nProcessor nDim nodes i s = Inr s'"
      for i and s s' :: "real DonorInfo list \<times> real CVertex list"
    proof -
      obtain w ws w' ws' where s: "s = (w, ws)" "s' = (w', ws')"
        by (cases s, cases s')
      from that [unfolded s] obtain tv' where i: "i < length ws"
        and b: "target_vertex_body psort nDonor eps b nProcessor nDim nodes (w, ws ! i) = Inr (w', tv')"
        and u: "ws' = ws[i := tv']"
        by (rule target_loop_body_Inr)
      have "Q (ws ! i) tv'"
        using b by (rule step)
      then have "list_all2 Q ws (ws[i := tv'])"
        using i by (simp add: list_all2_conv_all_nth nth_list_update refl)
      then show ?thesis
        by (simp add: s u)
    qed
  qed
  then show ?thesis
    by simp
qed

lemma marker_body_vertexwise:
  assumes refl: "\<And>tv. Q tv tv"
    and trans: "\<And>x y z. Q x y \<Longrightarrow> Q y z \<Longrightarrow> Q x z"
    and step: "\<And>b nDim v tv v' tv'.
      target_vertex_body (partial_sort C) nDonor eps b nProcessor nDim (node g) (v, tv) = Inr (v', tv')
        \<Longrightarrow> Q tv tv'"
    and run: "marker_body C config_donor config_target g nDonor eps nProcessor iMarkerInt st = Inr st'"
  shows "list_all2 Q (vertex st m) (vertex st' m)"
  using run
proof (cases rule: marker_body_Inr)
  case skipped
  then show ?thesis
    by (simp add: list_all2_refl refl)
next
  case (processed v' verts')
  have "list_all2 Q (vertex st (Find_InterfaceMarker config_target iMarkerInt)) verts'"
    using refl trans step processed(2) by (rule target_loop_vertexwise)
  then show ?thesis
    by (simp add: processed(3) list_all2_refl refl)
qed

lemma Set_TransferCoeff_vertexwise:
  assumes refl: "\<And>tv. Q tv tv"
    and trans: "\<And>x y z. Q x y \<Longrightarrow> Q y z \<Longrightarrow> Q x z"
    and step: "\<And>b nDim v tv v' tv'.
      target_vertex_body (partial_sort C) (nDonor_of config_donor) eps b nProcessor nDim (node g) (v, tv)
        = Inr (v', tv') \<Longrightarrow> Q tv tv'"
    and run: "Set_TransferCoeff C eps config_donor config_target g nProcessor st = Inr st'"
  shows "list_all2 Q (vertex st m) (vertex st' m)"
proof -
  let ?st0 = "st\<lparr>DonorInfoVec := [],
      events := events st @ [New ''Buffer_Receive_nVertex_Donor'' nProcessor]\<rparr>"
  let ?R = "\<lambda>s s'. \<forall>m. list_all2 Q (vertex s m) (vertex s' m)"
  from run obtain st1 where loop: "for_loop [1..<Suc (GetMarker_n_ZoneInterface config_donor div 2)]
      (marker_body C config_donor config_target g (nDonor_of config_donor) eps nProcessor) ?st0 = Inr st1"
    and fin: "st' = st1\<lparr>events := events st1 @ [Delete ''Buffer_Receive_nVertex_Donor'']\<rparr>"
    unfolding Set_TransferCoeff_def Let_def by (auto simp: bindE_eq_Inr)
  have "?R ?st0 st1"
  proof (rule for_loop_rel [where R = ?R, OF _ _ _ loop])
    show "?R s s" for s :: State
      by (simp add: list_all2_refl refl)
    show "?R s s''" if "?R s s'" "?R s' s''" for s s' s'' :: State
    proof
      fix m
      have 1: "list_all2 Q (vertex s m) (vertex s' m)" and 2: "list_all2 Q (vertex s' m) (vertex s'' m)"
        using that by simp_all
      show "list_all2 Q (vertex s m) (vertex s'' m)"
        by (rule list_all2_trans [OF _ 1 2]) (rule trans)
    qed
    show "?R s s'"
      if "marker_body C config_donor config_target g (nDonor_of config_donor) eps nProcessor i s = Inr s'"
      for i and s s' :: State
    proof
      fix m
      show "list_all2 Q (vertex s m) (vertex s' m)"
        using refl trans step that by (rule marker_body_vertexwise)
    qed
  qed
  then show ?thesis
    by (simp add: fin)
qed

subsection \<open>What the pass establishes before every search\<close>

lemma length_resize: "length (resize n v) = n"
  by (simp add: resize_def)

lemma gather_gathered:
  assumes "stride_covers_counts C nProcessor"
  shows "gathered (gather C nProcessor nDim iMarkerInt markDonor markTarget nVertexDonor) nProcessor nDim"
proof -
  obtain stride cnt where d: "Determine_ArraySize C iMarkerInt False markDonor markTarget nVertexDonor nDim
      = (stride, cnt)"
    by (cases "Determine_ArraySize C iMarkerInt False markDonor markTarget nVertexDonor nDim")
  obtain coord point where c: "Collect_VertexInfo C iMarkerInt False markDonor markTarget nVertexDonor nDim
      = (coord, point)"
    by (cases "Collect_VertexInfo C iMarkerInt False markDonor markTarget nVertexDonor nDim")
  have "cnt p \<le> stride" if "p < nProcessor" for p
    using assms that d unfolding stride_covers_counts_def
    by (metis fst_conv snd_conv)
  then show ?thesis
    by (auto simp: gathered_def gather_def d c)
qed

lemma target_loop_searches:
  fixes eps :: real
  assumes refl: "\<And>tv. Q tv tv"
    and trans: "\<And>x y z. Q x y \<Longrightarrow> Q y z \<Longrightarrow> Q x z"
    and g: "gathered b nProcessor nDim" and c: "partial_sort_contract psort"
    and step: "\<And>v tv v' tv'. length v = nPossibleDonor b \<Longrightarrow>
      target_vertex_body psort nDonor eps b nProcessor nDim nodes (v, tv) = Inr (v', tv') \<Longrightarrow> Q tv tv'"
    and len: "length v = nPossibleDonor b"
    and run: "for_loop is (target_loop_body psort nDonor eps b nProcessor nDim nodes) (v, verts) = Inr (v', verts')"
  shows "list_all2 Q verts verts'"
proof -
  let ?R = "\<lambda>s s'. length (fst s) = nPossibleDonor b \<longrightarrow>
    length (fst s') = nPossibleDonor b \<and> list_all2 Q (snd s) (snd s')"
  have "?R (v, verts) (v', verts')"
  proof (rule for_loop_rel [where R = ?R, OF _ _ _ run])
    show "?R s s" for s :: "real DonorInfo list \<times> real CVertex list"
      by (simp add: list_all2_refl refl)
    show "?R s s''" if 1: "?R s s'" and 2: "?R s' s''" for s s' s'' :: "real DonorInfo list \<times> real CVertex list"
    proof
      assume l: "length (fst s) = nPossibleDonor b"
      then have a: "length (fst s') = nPossibleDonor b" "list_all2 Q (snd s) (snd s')"
        using 1 by simp_all
      then have b: "length (fst s'') = nPossibleDonor b" "list_all2 Q (snd s') (snd s'')"
        using 2 by simp_all
      have "list_all2 Q (snd s) (snd s'')"
        by (rule list_all2_trans [OF _ a(2) b(2)]) (rule trans)
      then show "length (fst s'') = nPossibleDonor b \<and> list_all2 Q (snd s) (snd s'')"
        using b(1) by simp
    qed
    show "?R s s'"
      if "target_loop_body psort nDonor eps b nProcessor nDim nodes i s = Inr s'"
      for i and s s' :: "real DonorInfo list \<times> real CVertex list"
    proof
      assume l: "length (fst s) = nPossibleDonor b"
      obtain w ws w' ws' where s: "s = (w, ws)" "s' = (w', ws')"
        by (cases s, cases s')
      from that [unfolded s] obtain tv' where i: "i < length ws"
        and b: "target_vertex_body psort nDonor eps b nProcessor nDim nodes (w, ws ! i) = Inr (w', tv')"
        and u: "ws' = ws[i := tv']"
        by (rule target_loop_body_Inr)
      have lw: "length w = nPossibleDonor b"
        using l by (simp add: s)
      have "Q (ws ! i) tv'"
        using lw b by (rule step)
      then have "list_all2 Q ws (ws[i := tv'])"
        using i by (simp add: list_all2_conv_all_nth nth_list_update refl)
      moreover have "length w' = nPossibleDonor b"
        using g c lw b by (rule target_vertex_body_length)
      ultimately show "length (fst s') = nPossibleDonor b \<and> list_all2 Q (snd s) (snd s')"
        by (simp add: s u)
    qed
  qed
  then show ?thesis
    using len by simp
qed

lemma marker_body_searches:
  assumes refl: "\<And>tv. Q tv tv"
    and trans: "\<And>x y z. Q x y \<Longrightarrow> Q y z \<Longrightarrow> Q x z"
    and m: "stride_covers_counts C nProcessor" and c: "partial_sort_contract (partial_sort C)"
    and step: "\<And>b nDim v tv v' tv'. gathered b nProcessor nDim \<Longrightarrow> length v = nPossibleDonor b \<Longrightarrow>
      target_vertex_body (partial_sort C) nDonor eps b nProcessor nDim (node g) (v, tv) = Inr (v', tv')
        \<Longrightarrow> Q tv tv'"
    and run: "marker_body C config_donor config_target g nDonor eps nProcessor iMarkerInt st = Inr st'"
  shows "list_all2 Q (vertex st m) (vertex st' m)"
  using run
proof (cases rule: marker_body_Inr)
  case skipped
  then show ?thesis
    by (simp add: list_all2_refl refl)
next
  case (processed v' verts')
  let ?b = "gather C nProcessor (GetnDim g) iMarkerInt (Find_InterfaceMarker config_donor iMarkerInt)
      (Find_InterfaceMarker config_target iMarkerInt)
      (if Find_InterfaceMarker config_donor iMarkerInt \<noteq> - 1
       then GetnVertex_donor g (Find_InterfaceMarker config_donor iMarkerInt) else 0)"
  have gb: "gathered ?b nProcessor (GetnDim g)"
    using m by (rule gather_gathered)
  have "list_all2 Q (vertex st (Find_InterfaceMarker config_target iMarkerInt)) verts'"
  proof (rule target_loop_searches [where Q = Q, OF refl trans gb c _ _ processed(2)])
    show "Q tv tv'"
      if "length v = nPossibleDonor ?b"
        "target_vertex_body (partial_sort C) nDonor eps ?b nProcessor (GetnDim g) (node g) (v, tv)
          = Inr (v', tv')" for v tv v' tv'
      using gb that by (rule step)
    show "length (resize (nPossibleDonor ?b) (DonorInfoVec st)) = nPossibleDonor ?b"
      by (rule length_resize)
  qed
  then show ?thesis
    by (simp add: processed(3) list_all2_refl refl)
qed

lemma Set_TransferCoeff_searches:
  assumes refl: "\<And>tv. Q tv tv"
    and trans: "\<And>x y z. Q x y \<Longrightarrow> Q y z \<Longrightarrow> Q x z"
    and m: "stride_covers_counts C nProcessor" and c: "partial_sort_contract (partial_sort C)"
    and step: "\<And>b nDim v tv v' tv'. gathered b nProcessor nDim \<Longrightarrow> length v = nPossibleDonor b \<Longrightarrow>
      target_vertex_body (partial_sort C) (nDonor_of config_donor) eps b nProcessor nDim (node g) (v, tv)
        = Inr (v', tv') \<Longrightarrow> Q tv tv'"
    and run: "Set_TransferCoeff C eps config_donor config_target g nProcessor st = Inr st'"
  shows "list_all2 Q (vertex st m) (vertex st' m)"
proof -
  let ?st0 = "st\<lparr>DonorInfoVec := [],
      events := events st @ [New ''Buffer_Receive_nVertex_Donor'' nProcessor]\<rparr>"
  let ?R = "\<lambda>s s'. \<forall>m. list_all2 Q (vertex s m) (vertex s' m)"
  from run obtain st1 where loop: "for_loop [1..<Suc (GetMarker_n_ZoneInterface config_donor div 2)]
      (marker_body C config_donor config_target g (nDonor_of config_donor) eps nProcessor) ?st0 = Inr st1"
    and fin: "st' = st1\<lparr>events := events st1 @ [Delete ''Buffer_Receive_nVertex_Donor'']\<rparr>"
    unfolding Set_TransferCoeff_def Let_def by (auto simp: bindE_eq_Inr)
  have "?R ?st0 st1"
  proof (rule for_loop_rel [where R = ?R, OF _ _ _ loop])
    show "?R s s" for s :: State
      by (simp add: list_all2_refl refl)
    show "?R s s''" if "?R s s'" "?R s' s''" for s s' s'' :: State
    proof
      fix m
      have 1: "list_all2 Q (vertex s m) (vertex s' m)" and 2: "list_all2 Q (vertex s' m) (vertex s'' m)"
        using that by simp_all
      show "list_all2 Q (vertex s m) (vertex s'' m)"
        by (rule list_all2_trans [OF _ 1 2]) (rule trans)
    qed
    show "?R s s'"
      if "marker_body C config_donor config_target g (nDonor_of config_donor) eps nProcessor i s = Inr s'"
      for i and s s' :: State
    proof
      fix m
      show "list_all2 Q (vertex s m) (vertex s' m)"
        using refl trans m c step that by (rule marker_body_searches)
    qed
  qed
  then show ?thesis
    by (simp add: fin)
qed

lemma Set_TransferCoeff_records:
  assumes "stride_covers_counts C nProcessor" "partial_sort_contract (partial_sort C)" "0 < eps"
    "Set_TransferCoeff C eps config_donor config_target g nProcessor st = Inr st'"
    "i < length (vertex st m)"
  shows "vertex st' m ! i = vertex st m ! i \<or>
    normalised_record (nDonor_of config_donor) (Donor (vertex st' m ! i))"
proof -
  let ?Q = "\<lambda>tv tv'. tv' = tv \<or> normalised_record (nDonor_of config_donor) (Donor tv')"
  have k: "1 \<le> nDonor_of config_donor"
    by (simp add: nDonor_of_def)
  have "list_all2 ?Q (vertex st m) (vertex st' m)"
  proof (rule Set_TransferCoeff_searches [where Q = ?Q, OF _ _ assms(1,2) _ assms(4)])
    show "?Q x x" for x
      by simp
    show "?Q x z" if "?Q x y" "?Q y z" for x y z
      using that by auto
    show "?Q x x'"
      if "gathered b nProcessor nDim" "length w = nPossibleDonor b"
        "target_vertex_body (partial_sort C) (nDonor_of config_donor) eps b nProcessor nDim (node g) (w, x)
        = Inr (w', x')" for b nDim w x w' x'
      using that(1,2) assms(2,3) k that(3) by (rule target_vertex_body_record)
  qed
  then show ?thesis
    using assms(5) by (simp add: list_all2_conv_all_nth)
qed

subsection \<open>The small interface, evaluated\<close>

lemma example_gathered: "gathered example_buffers 2 1"
  by (simp add: gathered_def example_buffers_def)

lemma example_nPossibleDonor: "nPossibleDonor example_buffers = 3"
  by (simp add: nPossibleDonor_def example_buffers_def)

lemma example_length: "length example_scratch = nPossibleDonor example_buffers"
  by (simp add: example_scratch_def example_nPossibleDonor)

lemma example_owned: "GetDomain (example_nodes (GetNode example_vertex))"
  by (simp add: example_nodes_def example_vertex_def)

lemma example_coord: "GetCoord (example_nodes (GetNode example_vertex)) = [0]"
  by (simp add: example_nodes_def)

lemma example_halo: "\<not> GetDomain (example_nodes (GetNode example_halo_vertex))"
  by (simp add: example_nodes_def example_halo_vertex_def)

lemma example_candidates:
  "candidates example_buffers 2 1 [0] = [DonorInfo 9 30 0, DonorInfo 1 10 1, DonorInfo 4 20 1]"
  by (simp add: candidates_def cands_upto_def candidate_def example_buffers_def
      PointsSquareDistance_real upt_rec)

lemma example_stable:
  "partial_sort_stable 2 [DonorInfo 9 30 0, DonorInfo 1 10 1, DonorInfo 4 20 1] =
     [DonorInfo 1 10 1, DonorInfo 4 20 1, DonorInfo 9 30 0]"
  by (simp add: partial_sort_stable_def DonorInfo_def)

lemma example_record_of:
  "record_of 2 eps [DonorInfo 1 10 1, DonorInfo 4 20 1, DonorInfo 9 30 0] = example_record eps"
  by (simp add: record_of_def denom_of_real slot_of_def weigh_def DonorInfo_def example_record_def
      example_weight_def)

lemma example_run:
  "target_vertex_body partial_sort_stable 2 eps example_buffers 2 1 example_nodes
     (example_scratch, example_vertex) =
   Inr ([DonorInfo (1 / (1 + eps)) 10 1, DonorInfo (1 / (4 + eps)) 20 1, DonorInfo 9 30 0],
        example_vertex\<lparr>Donor := example_record eps\<rparr>)"
proof -
  have own: "GetDomain (example_nodes (GetNode example_vertex))"
    by (simp add: example_nodes_def example_vertex_def)
  have len: "length example_scratch = nPossibleDonor example_buffers"
    by (simp add: example_scratch_def example_nPossibleDonor)
  have c: "GetCoord (example_nodes (GetNode example_vertex)) = [0]"
    by (simp add: example_nodes_def)
  have w: "map (weigh eps) (take 2 [DonorInfo 1 10 1, DonorInfo 4 20 1, DonorInfo 9 30 0]) @
      drop 2 [DonorInfo 1 10 1, DonorInfo 4 20 1, DonorInfo 9 30 0] =
      [DonorInfo (1 / (1 + eps)) 10 1, DonorInfo (1 / (4 + eps)) 20 1, DonorInfo 9 30 0]"
    by (simp add: DonorInfo_def weigh_def)
  have le: "(2::nat) \<le> 3"
    by simp
  show ?thesis
    unfolding target_vertex_body_owned [where nodes = example_nodes and tv = example_vertex,
        OF example_gathered len partial_sort_stable_contract own]
    by (simp only: example_nPossibleDonor c example_candidates example_stable example_record_of
        Let_def w le if_True)
qed

lemma example_out_of_bounds:
  "target_vertex_body partial_sort_stable 4 eps example_buffers 2 1 example_nodes
     (example_scratch, example_vertex) = Inl OutOfBounds"
  unfolding target_vertex_body_owned [where nodes = example_nodes and tv = example_vertex,
      OF example_gathered example_length partial_sort_stable_contract example_owned]
  by (simp add: example_nPossibleDonor)

subsection \<open>A donor that coincides with the target\<close>

lemma coincident_gathered: "gathered coincident_buffers 1 1"
  by (simp add: gathered_def coincident_buffers_def)

lemma coincident_nPossibleDonor: "nPossibleDonor coincident_buffers = 2"
  by (simp add: nPossibleDonor_def coincident_buffers_def)

lemma coincident_length: "length (replicate 2 (DonorInfo 0 0 0)) = nPossibleDonor coincident_buffers"
  by (simp add: coincident_nPossibleDonor)

lemma coincident_candidates:
  "candidates coincident_buffers 1 1 [0] = [DonorInfo 0 7 0, DonorInfo 1 8 0]"
  by (simp add: candidates_def cands_upto_def candidate_def coincident_buffers_def
      PointsSquareDistance_real upt_rec)

lemma coincident_stable:
  "partial_sort_stable 2 [DonorInfo 0 7 0, DonorInfo 1 8 0] = [DonorInfo 0 7 0, DonorInfo 1 8 0]"
  by (simp add: partial_sort_stable_def DonorInfo_def)

lemma coincident_record_of:
  "record_of 2 eps [DonorInfo 0 7 0, DonorInfo 1 8 0] = coincident_record eps"
  by (simp add: record_of_def denom_of_real slot_of_def weigh_def DonorInfo_def coincident_record_def)

lemma coincident_run:
  "target_vertex_body partial_sort_stable 2 eps coincident_buffers 1 1 example_nodes
     (replicate 2 (DonorInfo 0 0 0), example_vertex) =
   Inr ([DonorInfo (1 / eps) 7 0, DonorInfo (1 / (1 + eps)) 8 0],
        example_vertex\<lparr>Donor := coincident_record eps\<rparr>)"
proof -
  have w: "map (weigh eps) (take 2 [DonorInfo 0 7 0, DonorInfo 1 8 0]) @
      drop 2 [DonorInfo 0 7 0, DonorInfo 1 8 0] =
      [DonorInfo (1 / eps) 7 0, DonorInfo (1 / (1 + eps)) 8 0]"
    by (simp add: DonorInfo_def weigh_def)
  have le: "(2::nat) \<le> 2"
    by simp
  show ?thesis
    unfolding target_vertex_body_owned [where nodes = example_nodes and tv = example_vertex,
        OF coincident_gathered coincident_length partial_sort_stable_contract example_owned]
    by (simp only: coincident_nPossibleDonor example_coord coincident_candidates coincident_stable
        coincident_record_of Let_def w le if_True)
qed

lemma coincident_out_of_bounds:
  "target_vertex_body partial_sort_stable 3 eps coincident_buffers 1 1 example_nodes
     (replicate 2 (DonorInfo 0 0 0), example_vertex) = Inl OutOfBounds"
  unfolding target_vertex_body_owned [where nodes = example_nodes and tv = example_vertex,
      OF coincident_gathered coincident_length partial_sort_stable_contract example_owned]
  by (simp add: coincident_nPossibleDonor)

subsection \<open>Two donors at the same distance\<close>

lemma tied_gathered: "gathered tied_buffers 2 1"
  by (simp add: gathered_def tied_buffers_def)

lemma tied_nPossibleDonor: "nPossibleDonor tied_buffers = 2"
  by (simp add: nPossibleDonor_def tied_buffers_def)

lemma tied_length: "length (replicate 2 (DonorInfo 0 0 0)) = nPossibleDonor tied_buffers"
  by (simp add: tied_nPossibleDonor)

lemma tied_candidates:
  "candidates tied_buffers 2 1 [0] = [DonorInfo 1 100 0, DonorInfo 1 200 1]"
  by (simp add: candidates_def cands_upto_def candidate_def tied_buffers_def
      PointsSquareDistance_real upt_rec)

lemma tied_heap_select:
  "std_partial_sort (\<lambda>a b. dist' a < dist' b) 1 [DonorInfo (1::real) 100 0, DonorInfo 1 200 1] =
     [DonorInfo 1 100 0, DonorInfo 1 200 1]"
  by (simp add: std_partial_sort_def std_sort_heap_def std_heap_select_def std_make_heap_def
      DonorInfo_def)

lemma tied_run_heap_select:
  assumes "0 < eps"
  shows "target_vertex_body (std_partial_sort (\<lambda>a b. dist' a < dist' b)) 1 eps tied_buffers 2 1
     example_nodes (replicate 2 (DonorInfo 0 0 0), example_vertex) =
   Inr ([DonorInfo (1 / (1 + eps)) 100 0, DonorInfo 1 200 1],
        example_vertex\<lparr>Donor :=
          [\<lparr>InterpDonorPoint = Some 100, InterpDonorProcessor = Some 0, DonorCoeff = Some 1\<rparr>]\<rparr>)"
proof -
  have w: "map (weigh eps) (take 1 [DonorInfo 1 100 0, DonorInfo 1 200 1]) @
      drop 1 [DonorInfo 1 100 0, DonorInfo 1 200 1] =
      [DonorInfo (1 / (1 + eps)) 100 0, DonorInfo 1 200 1]"
    by (simp add: DonorInfo_def weigh_def)
  have le: "(1::nat) \<le> nPossibleDonor tied_buffers"
    by (simp add: tied_nPossibleDonor)
  have r: "record_of 1 eps [DonorInfo 1 100 0, DonorInfo 1 200 1] =
      [\<lparr>InterpDonorPoint = Some 100, InterpDonorProcessor = Some 0, DonorCoeff = Some 1\<rparr>]"
    using assms by (simp add: record_of_def denom_of_real slot_of_def weigh_def DonorInfo_def)
  have len: "length (std_partial_sort (\<lambda>a b. dist' a < dist' b) 1
      (candidates tied_buffers 2 1 (GetCoord (example_nodes (GetNode example_vertex))))) =
      nPossibleDonor tied_buffers"
    unfolding example_coord tied_candidates tied_heap_select by (simp add: tied_nPossibleDonor)
  show ?thesis
    unfolding target_vertex_body_run [where nodes = example_nodes and tv = example_vertex
        and psort = "std_partial_sort (\<lambda>a b. dist' a < dist' b)" and nDonor = 1,
        OF tied_gathered tied_length example_owned le len]
    by (simp only: example_coord tied_candidates tied_heap_select r Let_def w)
qed

subsection \<open>A pass over the small interface\<close>

lemma example_gather:
  "gather example_collaborators 2 1 iMarkerInt markDonor markTarget nVertexDonor = example_buffers"
  by (simp add: gather_def example_collaborators_def example_buffers_def upt_rec)

lemma example_resize: "resize 3 [] = example_scratch"
  by (simp add: resize_def example_scratch_def)

lemma example_target_loop:
  "for_loop [0..<2]
     (target_loop_body partial_sort_stable 2 eps example_buffers 2 1 example_nodes)
     (example_scratch, [example_vertex, example_halo_vertex]) =
   Inr ([DonorInfo (1 / (1 + eps)) 10 1, DonorInfo (1 / (4 + eps)) 20 1, DonorInfo 9 30 0],
        [example_vertex\<lparr>Donor := example_record eps\<rparr>, example_halo_vertex])"
proof -
  have upt: "[0..<2] = [0, Suc 0]"
    by (simp add: upt_rec)
  have 0: "target_loop_body partial_sort_stable 2 eps example_buffers 2 1 example_nodes 0
      (example_scratch, [example_vertex, example_halo_vertex]) =
    Inr ([DonorInfo (1 / (1 + eps)) 10 1, DonorInfo (1 / (4 + eps)) 20 1, DonorInfo 9 30 0],
        [example_vertex\<lparr>Donor := example_record eps\<rparr>, example_halo_vertex])"
    unfolding target_loop_body_def by (simp add: example_run del: One_nat_def)
  have 1: "target_loop_body partial_sort_stable 2 eps example_buffers 2 1 example_nodes (Suc 0)
      (v, [tv, example_halo_vertex]) = Inr (v, [tv, example_halo_vertex])" for v tv
    unfolding target_loop_body_def
    by (simp add: target_vertex_body_halo [where nodes = example_nodes
          and tv = example_halo_vertex, OF example_halo] del: One_nat_def)
  show ?thesis
    unfolding upt by (simp add: 0 1 del: One_nat_def)
qed

lemma example_marker_1:
  "marker_body example_collaborators example_config_donor example_config_target example_geometry
     2 eps 2 1 (example_state\<lparr>events := [New ''Buffer_Receive_nVertex_Donor'' 2]\<rparr>) =
   Inr (\<lparr>vertex = (\<lambda>m. if m = 1
                    then [example_vertex\<lparr>Donor := example_record eps\<rparr>, example_halo_vertex]
                    else []),
      DonorInfoVec = [DonorInfo (1 / (1 + eps)) 10 1, DonorInfo (1 / (4 + eps)) 20 1, DonorInfo 9 30 0],
      events = New ''Buffer_Receive_nVertex_Donor'' 2 # marker_events 1 2 2 1\<rparr>)"
proof -
  have f: "Find_InterfaceMarker example_config_donor 1 = 0"
    "Find_InterfaceMarker example_config_target 1 = 1"
    by (simp_all add: example_config_donor_def example_config_target_def)
  have c: "CheckInterfaceBoundary example_collaborators 0 1"
    by (simp add: example_collaborators_def CheckInterfaceBoundary_spec_def)
  have p: "partial_sort example_collaborators = partial_sort_stable"
    by (simp add: example_collaborators_def)
  have g: "GetnDim example_geometry = 1" "node example_geometry = example_nodes"
    by (simp_all add: example_geometry_def)
  have v: "vertex (example_state\<lparr>events := [New ''Buffer_Receive_nVertex_Donor'' 2]\<rparr>) 1 =
      [example_vertex, example_halo_vertex]"
    "DonorInfoVec (example_state\<lparr>events := [New ''Buffer_Receive_nVertex_Donor'' 2]\<rparr>) = []"
    by (simp_all add: example_state_def)
  have len: "length [example_vertex, example_halo_vertex] = 2"
    by simp
  have m: "MaxLocalVertex_Donor example_buffers = 2"
    by (simp add: example_buffers_def)
  have neq: "(1::int) \<noteq> - 1"
    by simp
  show ?thesis
    unfolding marker_body_def Let_def f g example_gather example_nPossibleDonor v len
      example_resize p
    using c
    by (simp only: neq if_True not_True_eq_False not_False_eq_True if_False example_target_loop
        bindE_Inr prod.case m)
      (simp add: example_state_def fun_eq_iff del: One_nat_def)
qed

lemma example_marker_2:
  "marker_body example_collaborators example_config_donor example_config_target example_geometry
     nDonor eps nProcessor 2 st = Inr st"
  by (simp add: marker_body_def example_config_donor_def example_config_target_def
      example_collaborators_def CheckInterfaceBoundary_spec_def)

lemma example_pass:
  "Set_TransferCoeff example_collaborators eps example_config_donor example_config_target
     example_geometry 2 example_state = Inr (example_final eps)"
proof -
  have n: "nDonor_of example_config_donor = 2"
    by (simp add: nDonor_of_def example_config_donor_def)
  have upt: "[1..<Suc (GetMarker_n_ZoneInterface example_config_donor div 2)] = [1, 2]"
    by (simp add: example_config_donor_def upt_rec)
  have st0: "example_state\<lparr>DonorInfoVec := [],
      events := events example_state @ [New ''Buffer_Receive_nVertex_Donor'' 2]\<rparr> =
    example_state\<lparr>events := [New ''Buffer_Receive_nVertex_Donor'' 2]\<rparr>"
    by (simp add: example_state_def)
  show ?thesis
    unfolding Set_TransferCoeff_def Let_def n upt st0
    by (simp add: example_marker_1 example_marker_2 example_final_def del: One_nat_def)
qed
section \<open>The claims\<close>

text \<open>
  The statements about one search (\<open>target_vertex_body\<close>) are made for buffers \<open>b\<close> with
  \<open>gathered b nProcessor nDim\<close> and a scratch vector \<open>v\<close> with
  \<open>length v = nPossibleDonor b\<close>. This is the situation of every search that a pass of
  \<open>Set_TransferCoeff\<close> starts: the buffers are those that \<open>gather\<close> builds from the two
  collectives (lemma \<open>gather_gathered\<close>, for collectives whose stride covers every count), the
  vector is resized to \<open>nPossibleDonor\<close> before the loop over the target vertices (lemma
  \<open>length_resize\<close>, line 99), and a search that returns leaves its length as it was (lemma
  \<open>target_vertex_body_length\<close>); lemmas \<open>Set_TransferCoeff_searches\<close> and
  \<open>Set_TransferCoeff_records\<close> carry a property of every such search to the vertices after
  the pass.

  \<^verbatim>\<open>std::partial_sort\<close> is the parameter \<open>psort\<close>, of which \<open>partial_sort_contract\<close> is assumed
  and nothing else, except where the claim is about elements that compare equal: there it
  is \<open>std_partial_sort\<close>, heap selection. A search
  or a pass \<^emph>\<open>returns\<close> when its value is \<open>Inr\<close>; the value \<open>Inl OutOfBounds\<close> stands for an
  access past the end of an array, whose behaviour C++ leaves undefined. \<^verbatim>\<open>su2double\<close> is
  \<open>real\<close>: sums and quotients are exact.
\<close>



text \<open>
  C2 (as amended). For a target vertex that this process owns, the scan yields exactly the
  real gathered donors: one candidate per process and slot below that process's own count,
  in scan order, whatever the padded slots hold (the search gives the same result for any
  other gathered data that hold the same donors). With at least \<open>nDonor\<close> gathered donors
  the search returns, and the entries written to the record are the first \<open>nDonor\<close> entries
  that \<^verbatim>\<open>partial_sort\<close> leaves: they are candidates, their squared distances are the \<open>nDonor\<close>
  smallest squared distances of the candidates in ascending order, no candidate left out is
  nearer than one selected, and the first one attains the minimum over all candidates. With
  fewer than \<open>nDonor\<close> gathered donors the search stops with \<open>OutOfBounds\<close>.

  The claim as stated has \<open>nDonor\<close> entries written for every processed vertex. The last
  theorem of this block is an owned vertex with two gathered donors and \<open>nDonor = 3\<close>: the
  call of \<^verbatim>\<open>partial_sort\<close> (line 126) is out of bounds, and no record of three entries
  results.
\<close>

theorem nearest_selected:
  assumes "gathered b nProcessor nDim" "length v = nPossibleDonor b"
    "partial_sort_contract psort" "GetDomain (nodes (GetNode tv))" "1 \<le> nDonor"
  shows "let Coord_i = GetCoord (nodes (GetNode tv));
             xs = candidates b nProcessor nDim Coord_i;
             ys = psort nDonor xs;
             selected = take nDonor ys
         in compute_all_distances b nProcessor nDim Coord_i v = Inr xs \<and>
            length xs = nPossibleDonor b \<and>
            (\<forall>b'. gathered b' nProcessor nDim \<longrightarrow> same_donors b b' nDim \<longrightarrow>
               target_vertex_body psort nDonor eps b' nProcessor nDim nodes (v, tv) =
               target_vertex_body psort nDonor eps b nProcessor nDim nodes (v, tv)) \<and>
            (nPossibleDonor b < nDonor \<longrightarrow>
               target_vertex_body psort nDonor eps b nProcessor nDim nodes (v, tv) = Inl OutOfBounds) \<and>
            (nDonor \<le> nPossibleDonor b \<longrightarrow>
               (\<exists>v' tv'.
                  target_vertex_body psort nDonor eps b nProcessor nDim nodes (v, tv) = Inr (v', tv') \<and>
                  length (Donor tv') = nDonor \<and>
                  map InterpDonorPoint (Donor tv') = map (\<lambda>d. Some (unat (pidx d))) selected \<and>
                  map InterpDonorProcessor (Donor tv') = map (\<lambda>d. Some (proc d)) selected) \<and>
               mset ys = mset xs \<and> length selected = nDonor \<and>
               map dist' selected = take nDonor (sort (map dist' xs)) \<and>
               (\<forall>a \<in> set selected. \<forall>c \<in> set (drop nDonor ys). dist' a \<le> dist' c) \<and>
               (\<forall>c \<in> set xs. dist' (hd selected) \<le> dist' c))"
proof -
  let ?c = "GetCoord (nodes (GetNode tv))"
  let ?xs = "candidates b nProcessor nDim ?c"
  let ?ys = "psort nDonor ?xs"
  let ?run = "target_vertex_body psort nDonor eps b nProcessor nDim nodes (v, tv)"
  note body = target_vertex_body_owned [where nodes = nodes and tv = tv, OF assms(1-4), of nDonor eps]
  have lx: "length ?xs = nPossibleDonor b"
    using assms(1) by (rule length_candidates)
  have 1: "compute_all_distances b nProcessor nDim ?c v = Inr ?xs"
    using assms(1,2) by (rule compute_all_distances_in)
  have 2: "\<forall>b'. gathered b' nProcessor nDim \<longrightarrow> same_donors b b' nDim \<longrightarrow>
      target_vertex_body psort nDonor eps b' nProcessor nDim nodes (v, tv) = ?run"
    using same_donors_run [where nodes = nodes and tv = tv, OF assms(1) _ _ assms(2,3,4)]
    by blast
  have 3: "nPossibleDonor b < nDonor \<longrightarrow> ?run = Inl OutOfBounds"
    unfolding body by simp
  have 4: "(\<exists>v' tv'. ?run = Inr (v', tv') \<and> length (Donor tv') = nDonor \<and>
        map InterpDonorPoint (Donor tv') = map (\<lambda>d. Some (unat (pidx d))) (take nDonor ?ys) \<and>
        map InterpDonorProcessor (Donor tv') = map (\<lambda>d. Some (proc d)) (take nDonor ?ys)) \<and>
      mset ?ys = mset ?xs \<and> length (take nDonor ?ys) = nDonor \<and>
      map dist' (take nDonor ?ys) = take nDonor (sort (map dist' ?xs)) \<and>
      (\<forall>a \<in> set (take nDonor ?ys). \<forall>c \<in> set (drop nDonor ?ys). dist' a \<le> dist' c) \<and>
      (\<forall>c \<in> set ?xs. dist' (hd (take nDonor ?ys)) \<le> dist' c)"
    if le: "nDonor \<le> nPossibleDonor b"
  proof -
    have k: "nDonor \<le> length ?xs"
      using le lx by simp
    have post: "partial_sort_post nDonor ?xs ?ys"
      using assms(3) k by (rule contract_post)
    have ly: "length ?ys = nPossibleDonor b"
      using partial_sort_post_length [OF post] lx by simp
    have run: "?run = Inr (map (weigh eps) (take nDonor ?ys) @ drop nDonor ?ys,
        tv\<lparr>Donor := record_of nDonor eps ?ys\<rparr>)"
      unfolding body using le by (simp add: Let_def)
    have a: "\<exists>v' tv'. ?run = Inr (v', tv') \<and> length (Donor tv') = nDonor \<and>
        map InterpDonorPoint (Donor tv') = map (\<lambda>d. Some (unat (pidx d))) (take nDonor ?ys) \<and>
        map InterpDonorProcessor (Donor tv') = map (\<lambda>d. Some (proc d)) (take nDonor ?ys)"
      unfolding run using le ly
      by (simp add: length_record_of points_record_of procs_record_of del: map_map)
    have b: "mset ?ys = mset ?xs"
      using post by (simp add: partial_sort_post_def)
    have c: "length (take nDonor ?ys) = nDonor"
      using le ly by simp
    have d: "map dist' (take nDonor ?ys) = take nDonor (sort (map dist' ?xs))"
      using post k by (rule selected_distances)
    have e: "\<forall>a \<in> set (take nDonor ?ys). \<forall>c \<in> set (drop nDonor ?ys). dist' a \<le> dist' c"
      using post by (simp add: partial_sort_post_def)
    have f: "\<forall>c \<in> set ?xs. dist' (hd (take nDonor ?ys)) \<le> dist' c"
      using hd_nearest [OF post assms(5) k] assms(5) by (simp add: hd_take)
    show ?thesis
      by (intro conjI a b c d e f)
  qed
  show ?thesis
    unfolding Let_def
    apply (intro conjI)
        apply (rule 1)
       apply (rule lx)
      apply (rule 2)
     apply (rule 3)
    using 4 apply blast
    done
qed

theorem nearest_selected_witness:
  "compute_all_distances example_buffers 2 1 [0] example_scratch =
     Inr [DonorInfo 9 30 0, DonorInfo 1 10 1, DonorInfo 4 20 1] \<and>
   partial_sort_stable 2 [DonorInfo 9 30 0, DonorInfo 1 10 1, DonorInfo 4 20 1] =
     [DonorInfo 1 10 1, DonorInfo 4 20 1, DonorInfo 9 30 0] \<and>
   take 2 (sort (map dist' [DonorInfo (9::real) 30 0, DonorInfo 1 10 1, DonorInfo 4 20 1])) = [1, 4] \<and>
   target_vertex_body partial_sort_stable 2 epsilon_binary64 example_buffers 2 1 example_nodes
     (example_scratch, example_vertex) =
   Inr ([DonorInfo (1 / (1 + epsilon_binary64)) 10 1, DonorInfo (1 / (4 + epsilon_binary64)) 20 1,
         DonorInfo 9 30 0],
        example_vertex\<lparr>Donor := example_record epsilon_binary64\<rparr>) \<and>
   map InterpDonorPoint (example_record epsilon_binary64) = [Some 10, Some 20] \<and>
   map InterpDonorProcessor (example_record epsilon_binary64) = [Some 1, Some 1]"
proof -
  have one: "(1::nat) \<le> 2"
    by simp
  have three: "(2::nat) \<le> 3"
    by simp
  have sel: "take 2 [DonorInfo 1 10 1, DonorInfo 4 20 1, DonorInfo 9 30 0] = [DonorInfo 1 10 1, DonorInfo 4 20 1]"
    by simp
  note t = nearest_selected [where nodes = example_nodes and tv = example_vertex
      and eps = epsilon_binary64,
      OF example_gathered example_length partial_sort_stable_contract example_owned one,
      unfolded example_coord example_candidates example_stable Let_def sel example_nPossibleDonor]
  from t three have
    "compute_all_distances example_buffers 2 1 [0] example_scratch =
       Inr [DonorInfo 9 30 0, DonorInfo 1 10 1, DonorInfo 4 20 1]"
    "map dist' [DonorInfo (1::real) 10 1, DonorInfo 4 20 1] =
       take 2 (sort (map dist' [DonorInfo 9 30 0, DonorInfo 1 10 1, DonorInfo 4 20 1]))"
    "\<exists>v' tv'. target_vertex_body partial_sort_stable 2 epsilon_binary64 example_buffers 2 1 example_nodes
        (example_scratch, example_vertex) = Inr (v', tv') \<and> length (Donor tv') = 2 \<and>
        map InterpDonorPoint (Donor tv') = map (\<lambda>d. Some (unat (pidx d))) [DonorInfo (1::real) 10 1, DonorInfo 4 20 1] \<and>
        map InterpDonorProcessor (Donor tv') = map (\<lambda>d. Some (proc d)) [DonorInfo (1::real) 10 1, DonorInfo 4 20 1]"
    by blast+
  then show ?thesis
    using example_run [of epsilon_binary64] example_stable
    by (simp add: DonorInfo_def example_record_def)
qed

theorem too_few_candidates_to_select:
  "GetDomain (example_nodes (GetNode example_vertex)) \<and>
   candidates coincident_buffers 1 1 [0] = [DonorInfo 0 7 0, DonorInfo 1 8 0] \<and>
   target_vertex_body partial_sort_stable 3 epsilon_binary64 coincident_buffers 1 1 example_nodes
     (replicate 2 (DonorInfo 0 0 0), example_vertex) = Inl OutOfBounds \<and>
   \<not> (\<exists>v' tv'. target_vertex_body partial_sort_stable 3 epsilon_binary64 coincident_buffers 1 1
            example_nodes (replicate 2 (DonorInfo 0 0 0), example_vertex) = Inr (v', tv') \<and>
          length (Donor tv') = 3)"
  unfolding coincident_out_of_bounds
  using example_owned coincident_candidates by simp

text \<open>
  C3 (as amended). For a target vertex that this process owns, with the scratch vector
  sized to \<open>nPossibleDonor\<close> (the sum of the processes' donor counts): the candidate fill
  stays within the vector; the partial selection, the weighting and the record writing
  each stay within it exactly when it holds at least \<open>nDonor\<close> entries; the whole search
  stops with \<open>OutOfBounds\<close> exactly when \<open>nPossibleDonor < nDonor\<close>, there being no clamp
  and no emptiness check. Every search that returns has allocated the record with exactly
  \<open>nDonor\<close> slots and has written all of them.

  The claim as stated also has the record allocated and written when fewer than \<open>nDonor\<close>
  donors exist. There the call of \<^verbatim>\<open>partial_sort\<close> (line 126) is out of bounds before the
  record is allocated (line 137): the behaviour is undefined in C++, the model stops, and
  no record results; the last theorem of this block is such a run, with three donors and
  \<open>nDonor = 4\<close>.
\<close>

theorem accesses_in_bounds:
  assumes "gathered b nProcessor nDim" "length v = nPossibleDonor b"
    "partial_sort_contract psort" "GetDomain (nodes (GetNode tv))"
  shows "compute_all_distances b nProcessor nDim Coord_i v = Inr (candidates b nProcessor nDim Coord_i) \<and>
    length (candidates b nProcessor nDim Coord_i) = nPossibleDonor b \<and>
    (find_k_closest psort nDonor xs = Inl OutOfBounds \<longleftrightarrow> length xs < nDonor) \<and>
    (compute_numerators nDonor eps xs = Inl OutOfBounds \<longleftrightarrow> length xs < nDonor) \<and>
    (set_coefficients nDonor xs denom tv = Inl OutOfBounds \<longleftrightarrow> length xs < nDonor) \<and>
    (target_vertex_body psort nDonor eps b nProcessor nDim nodes (v, tv) = Inl OutOfBounds
       \<longleftrightarrow> nPossibleDonor b < nDonor) \<and>
    (\<forall>v' tv'. target_vertex_body psort nDonor eps b nProcessor nDim nodes (v, tv) = Inr (v', tv') \<longrightarrow>
       nDonor \<le> nPossibleDonor b \<and> length v' = nPossibleDonor b \<and>
       length (Donor tv') = nDonor \<and> (\<forall>s \<in> set (Donor tv'). written s))"
proof -
  note body = target_vertex_body_owned [where nodes = nodes and tv = tv, OF assms, of nDonor eps]
  have 1: "target_vertex_body psort nDonor eps b nProcessor nDim nodes (v, tv) = Inl OutOfBounds
       \<longleftrightarrow> nPossibleDonor b < nDonor"
    unfolding body by (simp add: Let_def)
  have 2: "nDonor \<le> nPossibleDonor b \<and> length v' = nPossibleDonor b \<and>
       length (Donor tv') = nDonor \<and> (\<forall>s \<in> set (Donor tv'). written s)"
    if run: "target_vertex_body psort nDonor eps b nProcessor nDim nodes (v, tv) = Inr (v', tv')"
    for v' tv'
  proof -
    note r = target_vertex_body_Inr [where nodes = nodes and tv = tv, OF assms run]
    let ?ys = "psort nDonor (candidates b nProcessor nDim (GetCoord (nodes (GetNode tv))))"
    have len: "length ?ys = nPossibleDonor b"
      using partial_sort_post_length [OF r(3)] assms(1) by (simp add: length_candidates)
    have "v' = map (weigh eps) (take nDonor ?ys) @ drop nDonor ?ys"
      using run r(1) unfolding body by (simp add: Let_def)
    then have "length v' = nPossibleDonor b"
      using len r(1) by simp
    then show ?thesis
      using r(1,2) len by (simp add: length_record_of written_record_of)
  qed
  have 3: "\<forall>v' tv'. target_vertex_body psort nDonor eps b nProcessor nDim nodes (v, tv) = Inr (v', tv') \<longrightarrow>
       nDonor \<le> nPossibleDonor b \<and> length v' = nPossibleDonor b \<and>
       length (Donor tv') = nDonor \<and> (\<forall>s \<in> set (Donor tv'). written s)"
    using 2 by blast
  show ?thesis
    apply (intro conjI)
          apply (rule compute_all_distances_in [OF assms(1,2)])
         apply (rule length_candidates [OF assms(1)])
        apply (rule find_k_closest_out)
       apply (rule compute_numerators_out_iff)
      apply (rule set_coefficients_out_iff)
     apply (rule 1)
    apply (rule 3)
    done
qed

theorem accesses_in_bounds_witness:
  "nPossibleDonor example_buffers = 3 \<and>
   target_vertex_body partial_sort_stable 2 epsilon_binary64 example_buffers 2 1 example_nodes
     (example_scratch, example_vertex) \<noteq> Inl OutOfBounds \<and>
   length (example_record epsilon_binary64) = 2 \<and>
   target_vertex_body partial_sort_stable 4 epsilon_binary64 example_buffers 2 1 example_nodes
     (example_scratch, example_vertex) = Inl OutOfBounds"
  using accesses_in_bounds [where nodes = example_nodes and tv = example_vertex,
      OF example_gathered example_length partial_sort_stable_contract example_owned,
      of "[0]" 2 "[]" epsilon_binary64 0]
    accesses_in_bounds [where nodes = example_nodes and tv = example_vertex,
      OF example_gathered example_length partial_sort_stable_contract example_owned,
      of "[0]" 4 "[]" epsilon_binary64 0]
  by (simp add: example_nPossibleDonor example_record_def)

theorem no_record_out_of_bounds:
  "nPossibleDonor example_buffers = 3 \<and>
   target_vertex_body partial_sort_stable 4 epsilon_binary64 example_buffers 2 1 example_nodes
     (example_scratch, example_vertex) = Inl OutOfBounds \<and>
   \<not> (\<exists>v' tv'. target_vertex_body partial_sort_stable 4 epsilon_binary64 example_buffers 2 1
            example_nodes (example_scratch, example_vertex) = Inr (v', tv') \<and>
          length (Donor tv') = 4 \<and> (\<forall>s \<in> set (Donor tv'). written s))"
  unfolding example_out_of_bounds by (simp add: example_nPossibleDonor)

text \<open>
  C4. The worked example: \<open>nDonor = 2\<close> and three candidates at squared distances 1, 4
  and 9 from the target, in any scan order and on any processes (in one dimension, a
  target at coordinate 0 and donors at coordinates 1, 2 and 3). For every \<open>eps > 0\<close> the
  search returns; the record holds, in this order, the global point and process of a
  candidate at squared distance 1 with the weight
  \<open>(1 / (1 + eps)) / (1 / (1 + eps) + 1 / (4 + eps))\<close> and those of a candidate at squared
  distance 4 with the weight \<open>(1 / (4 + eps)) / (1 / (1 + eps) + 1 / (4 + eps))\<close>; the two
  weights add up to 1, and they differ from 0.8 and 0.2 by less than \<open>eps\<close>.
\<close>

theorem worked_example:
  assumes "gathered b nProcessor nDim" "length v = nPossibleDonor b"
    "partial_sort_contract psort" "GetDomain (nodes (GetNode tv))" "0 < eps"
    "mset (map dist' (candidates b nProcessor nDim (GetCoord (nodes (GetNode tv))))) = {#1, 4, 9#}"
  shows "\<exists>v' d1 d2.
           d1 \<in> set (candidates b nProcessor nDim (GetCoord (nodes (GetNode tv)))) \<and>
           d2 \<in> set (candidates b nProcessor nDim (GetCoord (nodes (GetNode tv)))) \<and>
           dist' d1 = 1 \<and> dist' d2 = 4 \<and>
           target_vertex_body psort 2 eps b nProcessor nDim nodes (v, tv) =
             Inr (v', tv\<lparr>Donor :=
               [\<lparr>InterpDonorPoint = Some (unat (pidx d1)), InterpDonorProcessor = Some (proc d1),
                  DonorCoeff = Some (1 / (1 + eps) / (1 / (1 + eps) + 1 / (4 + eps)))\<rparr>,
                \<lparr>InterpDonorPoint = Some (unat (pidx d2)), InterpDonorProcessor = Some (proc d2),
                  DonorCoeff = Some (1 / (4 + eps) / (1 / (1 + eps) + 1 / (4 + eps)))\<rparr>]\<rparr>) \<and>
           1 / (1 + eps) / (1 / (1 + eps) + 1 / (4 + eps)) +
             1 / (4 + eps) / (1 / (1 + eps) + 1 / (4 + eps)) = 1 \<and>
           \<bar>1 / (1 + eps) / (1 / (1 + eps) + 1 / (4 + eps)) - 4 / 5\<bar> < eps \<and>
           \<bar>1 / (4 + eps) / (1 / (1 + eps) + 1 / (4 + eps)) - 1 / 5\<bar> < eps"
proof -
  let ?xs = "candidates b nProcessor nDim (GetCoord (nodes (GetNode tv)))"
  let ?ys = "psort 2 ?xs"
  have "size (mset (map dist' ?xs)) = 3"
    unfolding assms(6) by simp
  then have three: "length ?xs = 3"
    by simp
  then have n: "nPossibleDonor b = 3"
    using assms(1) by (simp add: length_candidates)
  have k: "2 \<le> length ?xs"
    using three by simp
  have post: "partial_sort_post 2 ?xs ?ys"
    using assms(3) k by (rule contract_post)
  have "mset [1, 4, 9 :: real] = mset (map dist' ?xs)"
    unfolding assms(6) by simp
  then have "sort (map dist' ?xs) = [1, 4, 9]"
    by (rule properties_for_sort) simp
  then have "map dist' (take 2 ?ys) = [1, 4]"
    using selected_distances [OF post k] by simp
  then obtain d1 d2 where sel: "take 2 ?ys = [d1, d2]" and d: "dist' d1 = 1" "dist' d2 = 4"
    by (rule map_eq_two)
  have "set (take 2 ?ys) \<subseteq> set ?ys"
    by (rule set_take_subset)
  then have mem: "d1 \<in> set ?xs" "d2 \<in> set ?xs"
    using sel partial_sort_post_set [OF post] by auto
  have rec: "record_of 2 eps ?ys =
      [\<lparr>InterpDonorPoint = Some (unat (pidx d1)), InterpDonorProcessor = Some (proc d1),
         DonorCoeff = Some (1 / (1 + eps) / (1 / (1 + eps) + 1 / (4 + eps)))\<rparr>,
       \<lparr>InterpDonorPoint = Some (unat (pidx d2)), InterpDonorProcessor = Some (proc d2),
         DonorCoeff = Some (1 / (4 + eps) / (1 / (1 + eps) + 1 / (4 + eps)))\<rparr>]"
    by (simp add: record_of_def denom_of_real sel d slot_of_def weigh_def)
  have run: "target_vertex_body psort 2 eps b nProcessor nDim nodes (v, tv) =
      Inr (map (weigh eps) (take 2 ?ys) @ drop 2 ?ys, tv\<lparr>Donor := record_of 2 eps ?ys\<rparr>)"
    unfolding target_vertex_body_owned [where nodes = nodes and tv = tv, OF assms(1-4)]
    by (simp add: n Let_def)
  show ?thesis
    using mem d run [unfolded rec] worked_weights [OF assms(5)] by blast
qed

theorem worked_example_witness:
  "candidates example_buffers 2 1 [0] = [DonorInfo 9 30 0, DonorInfo 1 10 1, DonorInfo 4 20 1] \<and>
   target_vertex_body partial_sort_stable 2 epsilon_binary64 example_buffers 2 1 example_nodes
     (example_scratch, example_vertex) =
   Inr ([DonorInfo (1 / (1 + epsilon_binary64)) 10 1, DonorInfo (1 / (4 + epsilon_binary64)) 20 1,
         DonorInfo 9 30 0],
        example_vertex\<lparr>Donor := example_record epsilon_binary64\<rparr>) \<and>
   \<bar>example_weight epsilon_binary64 1 - 4 / 5\<bar> < 1 / 10 ^ 15 \<and>
   \<bar>example_weight epsilon_binary64 4 - 1 / 5\<bar> < 1 / 10 ^ 15"
proof -
  have m: "mset (map dist' (candidates example_buffers 2 1
      (GetCoord (example_nodes (GetNode example_vertex))))) = {#1, 4, 9#}"
    unfolding example_coord example_candidates by (simp add: DonorInfo_def)
  have small: "epsilon_binary64 < 1 / 10 ^ 15"
    by (simp add: epsilon_binary64_def)
  have "\<bar>example_weight epsilon_binary64 1 - 4 / 5\<bar> < epsilon_binary64 \<and>
      \<bar>example_weight epsilon_binary64 4 - 1 / 5\<bar> < epsilon_binary64"
    using worked_example [where nodes = example_nodes and tv = example_vertex,
        OF example_gathered example_length partial_sort_stable_contract example_owned
          epsilon_binary64_pos m]
    unfolding example_weight_def by blast
  then show ?thesis
    using small example_candidates example_run [of epsilon_binary64] by simp
qed



text \<open>
  C6. With \<open>nDonor = 2\<close>, the two smallest squared distances of the candidates being 0 and
  1, and any \<open>eps\<close> with \<open>0 < eps \<le> 10\<^sup>-\<^sup>6\<close> (the machine epsilon of binary64, \<open>2\<^sup>-\<^sup>5\<^sup>2\<close>, and
  that of binary32, \<open>2\<^sup>-\<^sup>2\<^sup>3\<close>, are such), the search returns, the weight stored for the
  coincident donor is \<open>(1 / eps) / (1 / eps + 1 / (1 + eps))\<close>, and it exceeds 0.999999.
\<close>

theorem coincident_dominates:
  assumes "gathered b nProcessor nDim" "length v = nPossibleDonor b"
    "partial_sort_contract psort" "GetDomain (nodes (GetNode tv))"
    "0 < eps" "eps \<le> 1 / 10 ^ 6"
    "take 2 (sort (map dist' (candidates b nProcessor nDim (GetCoord (nodes (GetNode tv)))))) = [0, 1]"
  shows "\<exists>v' tv'.
     target_vertex_body psort 2 eps b nProcessor nDim nodes (v, tv) = Inr (v', tv') \<and>
     map DonorCoeff (Donor tv') =
       [Some (1 / eps / (1 / eps + 1 / (1 + eps))),
        Some (1 / (1 + eps) / (1 / eps + 1 / (1 + eps)))] \<and>
     999999 / 1000000 < 1 / eps / (1 / eps + 1 / (1 + eps))"
proof -
  let ?xs = "candidates b nProcessor nDim (GetCoord (nodes (GetNode tv)))"
  let ?ys = "psort 2 ?xs"
  have "length (take 2 (sort (map dist' ?xs))) = 2"
    unfolding assms(7) by simp
  then have k: "2 \<le> length ?xs"
    by simp
  then have le: "2 \<le> nPossibleDonor b"
    using assms(1) by (simp add: length_candidates)
  have post: "partial_sort_post 2 ?xs ?ys"
    using assms(3) k by (rule contract_post)
  have run: "target_vertex_body psort 2 eps b nProcessor nDim nodes (v, tv) =
      Inr (map (weigh eps) (take 2 ?ys) @ drop 2 ?ys, tv\<lparr>Donor := record_of 2 eps ?ys\<rparr>)"
    unfolding target_vertex_body_owned [where nodes = nodes and tv = tv, OF assms(1-4)]
    using le by (simp add: Let_def)
  have sel: "map dist' (take 2 ?ys) = [0, 1]"
    using selected_distances [OF post k] assms(7) by simp
  have "map DonorCoeff (record_of 2 eps ?ys) =
      map (\<lambda>d. Some (1 / (d + eps) / (\<Sum>e \<leftarrow> [0, 1]. 1 / (e + eps)))) [0, 1]"
    by (simp add: coeffs_from_distances sel del: map_map)
  then have coeff: "map DonorCoeff (record_of 2 eps ?ys) =
           [Some (1 / eps / (1 / eps + 1 / (1 + eps))),
            Some (1 / (1 + eps) / (1 / eps + 1 / (1 + eps)))]"
    by (simp add: add.commute)
  show ?thesis
    unfolding run using coeff coincident_weight [OF assms(5,6)] by simp
qed

theorem coincident_dominates_witness:
  "candidates coincident_buffers 1 1 [0] = [DonorInfo 0 7 0, DonorInfo 1 8 0] \<and>
   target_vertex_body partial_sort_stable 2 epsilon_binary64 coincident_buffers 1 1 example_nodes
     (replicate 2 (DonorInfo 0 0 0), example_vertex) =
   Inr ([DonorInfo (1 / epsilon_binary64) 7 0, DonorInfo (1 / (1 + epsilon_binary64)) 8 0],
        example_vertex\<lparr>Donor := coincident_record epsilon_binary64\<rparr>) \<and>
   DonorCoeff (hd (coincident_record epsilon_binary64)) =
     Some (1 / epsilon_binary64 / (1 / epsilon_binary64 + 1 / (1 + epsilon_binary64))) \<and>
   999999 / 1000000 < 1 / epsilon_binary64 / (1 / epsilon_binary64 + 1 / (1 + epsilon_binary64))"
proof -
  have small: "epsilon_binary64 \<le> 1 / 10 ^ 6"
    by (simp add: epsilon_binary64_def)
  have d: "take 2 (sort (map dist' (candidates coincident_buffers 1 1
      (GetCoord (example_nodes (GetNode example_vertex)))))) = [0, 1]"
    unfolding example_coord coincident_candidates by (simp add: DonorInfo_def)
  have c: "DonorCoeff (hd (coincident_record epsilon_binary64)) =
     Some (1 / epsilon_binary64 / (1 / epsilon_binary64 + 1 / (1 + epsilon_binary64)))"
    by (simp add: coincident_record_def)
  from coincident_dominates [where nodes = example_nodes and tv = example_vertex
      and v = "replicate 2 (DonorInfo 0 0 0)",
      OF coincident_gathered coincident_length partial_sort_stable_contract example_owned
        epsilon_binary64_pos small d]
  have "999999 / 1000000 < 1 / epsilon_binary64 / (1 / epsilon_binary64 + 1 / (1 + epsilon_binary64))"
    by blast
  then show ?thesis
    using coincident_candidates coincident_run [of epsilon_binary64] c by simp
qed

text \<open>
  C7. The donor count used by the engine is the maximum of the configured number of
  nearest neighbours and 1, so it is at least 1, and 1 when the configured number is 0.
  It is computed once: every vertex that a pass of \<^verbatim>\<open>Set_TransferCoeff\<close> changes, on any
  marker, has a record of exactly that many slots after the pass.
\<close>

theorem donor_count_fixed:
  "nDonor_of config_donor = max (GetNumNearestNeighbors config_donor) 1 \<and>
   1 \<le> nDonor_of config_donor \<and>
   (GetNumNearestNeighbors config_donor = 0 \<longrightarrow> nDonor_of config_donor = 1) \<and>
   (Set_TransferCoeff C eps config_donor config_target g nProcessor st = Inr st' \<longrightarrow>
      (\<forall>m i. i < length (vertex st m) \<longrightarrow>
         vertex st' m ! i = vertex st m ! i \<or>
         length (Donor (vertex st' m ! i)) = nDonor_of config_donor))"
proof (intro conjI impI allI)
  show "nDonor_of config_donor = max (GetNumNearestNeighbors config_donor) 1"
    by (simp add: nDonor_of_def)
  show "1 \<le> nDonor_of config_donor"
    by (simp add: nDonor_of_def)
  show "nDonor_of config_donor = 1" if "GetNumNearestNeighbors config_donor = 0"
    using that by (simp add: nDonor_of_def)
next
  let ?Q = "\<lambda>tv tv'. tv' = tv \<or> length (Donor tv') = nDonor_of config_donor"
  fix m i
  assume run: "Set_TransferCoeff C eps config_donor config_target g nProcessor st = Inr st'"
    and i: "i < length (vertex st m)"
  have "list_all2 ?Q (vertex st m) (vertex st' m)"
  proof (rule Set_TransferCoeff_vertexwise [where Q = ?Q, OF _ _ _ run])
    show "?Q x x" for x
      by simp
    show "?Q x z" if "?Q x y" "?Q y z" for x y z
      using that by auto
    show "?Q x x'"
      if "target_vertex_body (partial_sort C) (nDonor_of config_donor) eps b nProcessor nDim (node g) (w, x)
        = Inr (w', x')" for b nDim w x w' x'
      using that by (rule target_vertex_body_slots)
  qed
  then show "vertex st' m ! i = vertex st m ! i \<or>
      length (Donor (vertex st' m ! i)) = nDonor_of config_donor"
    using i by (simp add: list_all2_conv_all_nth)
qed

theorem donor_count_fixed_witness:
  "nDonor_of example_config_donor = 2 \<and>
   nDonor_of (example_config_donor\<lparr>GetNumNearestNeighbors := 0\<rparr>) = 1 \<and>
   Set_TransferCoeff example_collaborators epsilon_binary64 example_config_donor example_config_target
     example_geometry 2 example_state = Inr (example_final epsilon_binary64) \<and>
   vertex (example_final epsilon_binary64) 1 ! 0 \<noteq> vertex example_state 1 ! 0 \<and>
   length (Donor (vertex (example_final epsilon_binary64) 1 ! 0)) = 2"
proof -
  have n: "nDonor_of example_config_donor = 2"
    by (simp add: nDonor_of_def example_config_donor_def)
  have z: "nDonor_of (example_config_donor\<lparr>GetNumNearestNeighbors := 0\<rparr>) = 1"
    using donor_count_fixed [where config_donor = "example_config_donor\<lparr>GetNumNearestNeighbors := 0\<rparr>"]
    by simp
  have i: "0 < length (vertex example_state 1)"
    by (simp add: example_state_def)
  have d: "vertex (example_final epsilon_binary64) 1 ! 0 \<noteq> vertex example_state 1 ! 0"
    by (simp add: example_final_def example_state_def example_vertex_def example_record_def)
  note t = donor_count_fixed [where config_donor = example_config_donor
      and C = example_collaborators and eps = epsilon_binary64
      and config_target = example_config_target and g = example_geometry and nProcessor = 2
      and st = example_state and st' = "example_final epsilon_binary64"]
  from t example_pass [of epsilon_binary64] i d
  have "length (Donor (vertex (example_final epsilon_binary64) 1 ! 0)) = nDonor_of example_config_donor"
    by blast
  then show ?thesis
    using n z d example_pass [of epsilon_binary64] by simp
qed

text \<open>
  C8. With \<open>nDonor = 1\<close> and the partial sort of the standard library, for a target vertex
  that this process owns and at least one gathered donor: the search returns, and the donor
  written to the record is the candidate of a process \<open>iProcessor\<close> and a slot \<open>jVertex\<close>
  that is at the minimum squared distance over all candidates, every candidate before it in
  scan order (of a lower process rank, or of the same process and a lower slot) being
  strictly farther. So of several candidates at exactly the minimum squared distance the
  first in scan order is selected. This is a property of heap selection, which replaces the
  element in front only by one that compares less; the contract of \<^verbatim>\<open>std::partial_sort\<close> alone
  does not order elements that compare equal.
\<close>

theorem first_in_scan_order_selected:
  fixes eps :: real
  assumes "gathered b nProcessor nDim" "length v = nPossibleDonor b"
    "GetDomain (nodes (GetNode tv))" "1 \<le> nPossibleDonor b"
  shows "\<exists>iProcessor jVertex v' tv'.
     iProcessor < nProcessor \<and> jVertex < Buffer_Receive_nVertex_Donor b ! iProcessor \<and>
     target_vertex_body (std_partial_sort (\<lambda>a b. dist' a < dist' b)) 1 eps b nProcessor nDim nodes (v, tv)
       = Inr (v', tv') \<and>
     map InterpDonorProcessor (Donor tv') = [Some (int iProcessor)] \<and>
     map InterpDonorPoint (Donor tv') =
       [Some (unat (word_of_int (Buffer_Receive_GlobalPoint b ! (iProcessor * MaxLocalVertex_Donor b + jVertex))
                 :: 32 word))] \<and>
     (\<forall>p j. p < nProcessor \<longrightarrow> j < Buffer_Receive_nVertex_Donor b ! p \<longrightarrow>
        dist' (candidate b nDim (GetCoord (nodes (GetNode tv))) iProcessor jVertex)
          \<le> dist' (candidate b nDim (GetCoord (nodes (GetNode tv))) p j)) \<and>
     (\<forall>p j. p < nProcessor \<longrightarrow> j < Buffer_Receive_nVertex_Donor b ! p \<longrightarrow>
        p < iProcessor \<or> (p = iProcessor \<and> j < jVertex) \<longrightarrow>
        dist' (candidate b nDim (GetCoord (nodes (GetNode tv))) iProcessor jVertex)
          < dist' (candidate b nDim (GetCoord (nodes (GetNode tv))) p j))"
proof -
  let ?c = "GetCoord (nodes (GetNode tv))"
  let ?cnt = "Buffer_Receive_nVertex_Donor b"
  let ?xs = "candidates b nProcessor nDim ?c"
  let ?psort = "std_partial_sort (\<lambda>a b :: real DonorInfo. dist' a < dist' b)"
  let ?ys = "?psort 1 ?xs"
  have cnt: "nProcessor \<le> length ?cnt" "length ?cnt = nProcessor"
    using assms(1) by (simp_all add: gathered_def)
  have lx: "length ?xs = nPossibleDonor b"
    using assms(1) by (rule length_candidates)
  then have ne: "?xs \<noteq> []"
    using assms(4) by auto
  from std_partial_sort_one [OF ne, of dist'] obtain i where
    i: "i < length ?xs" "length ?ys = length ?xs" "?ys ! 0 = ?xs ! i"
      "\<forall>m < length ?xs. dist' (?xs ! i) \<le> dist' (?xs ! m)"
      "\<forall>m < i. dist' (?xs ! i) < dist' (?xs ! m)"
    by blast
  from cands_upto_nth [OF cnt(1) i(1) [unfolded candidates_def]] obtain p0 j0 where
    pj: "p0 < nProcessor" "j0 < ?cnt ! p0" "i = sum_list (take p0 ?cnt) + j0"
      "?xs ! i = candidate b nDim ?c p0 j0"
    unfolding candidates_def by blast
  have ly: "length ?ys = nPossibleDonor b"
    using i(2) lx by simp
  have run: "target_vertex_body ?psort 1 eps b nProcessor nDim nodes (v, tv) =
      Inr (map (weigh eps) (take 1 ?ys) @ drop 1 ?ys, tv\<lparr>Donor := record_of 1 eps ?ys\<rparr>)"
    using target_vertex_body_run [where nodes = nodes and tv = tv and psort = ?psort,
        OF assms(1,2,3,4) ly, of eps]
    by (simp add: Let_def)
  have tk: "take 1 ?ys = [candidate b nDim ?c p0 j0]"
    using ly assms(4) i(3) pj(4) by (cases ?ys) simp_all
  have procs: "map InterpDonorProcessor (record_of 1 eps ?ys) = [Some (int p0)]"
    unfolding procs_record_of tk by (simp add: candidate_def DonorInfo_def Let_def)
  have points: "map InterpDonorPoint (record_of 1 eps ?ys) =
      [Some (unat (word_of_int (Buffer_Receive_GlobalPoint b ! (p0 * MaxLocalVertex_Donor b + j0)) :: 32 word))]"
    unfolding points_record_of tk by (simp add: candidate_def DonorInfo_def Let_def)
  have least: "dist' (candidate b nDim ?c p0 j0) \<le> dist' (candidate b nDim ?c p j)"
    if "p < nProcessor" "j < ?cnt ! p" for p j
  proof -
    from cands_upto_index [OF cnt(1) that, of nDim ?c]
    have "sum_list (take p ?cnt) + j < length ?xs"
      "?xs ! (sum_list (take p ?cnt) + j) = candidate b nDim ?c p j"
      by (simp_all add: candidates_def)
    then show ?thesis
      using i(4) pj(4) by metis
  qed
  have first: "dist' (candidate b nDim ?c p0 j0) < dist' (candidate b nDim ?c p j)"
    if "p < nProcessor" "j < ?cnt ! p" "p < p0 \<or> (p = p0 \<and> j < j0)" for p j
  proof -
    from cands_upto_index [OF cnt(1) that(1,2), of nDim ?c]
    have at: "?xs ! (sum_list (take p ?cnt) + j) = candidate b nDim ?c p j"
      by (simp add: candidates_def)
    have "sum_list (take p ?cnt) + j < i"
    proof (cases "p < p0")
      case True
      have "sum_list (take p ?cnt) + j < sum_list (take p0 ?cnt)"
        using True pj(1) cnt(2) that(2) by (intro offset_less) simp_all
      then show ?thesis
        using pj(3) by simp
    next
      case False
      then show ?thesis
        using that(3) pj(3) by simp
    qed
    then show ?thesis
      using i(5) pj(4) at by metis
  qed
  show ?thesis
    apply (rule exI [of _ p0], rule exI [of _ j0])
    apply (rule exI [of _ "map (weigh eps) (take 1 ?ys) @ drop 1 ?ys"])
    apply (rule exI [of _ "tv\<lparr>Donor := record_of 1 eps ?ys\<rparr>"])
    apply (intro conjI)
          apply (rule pj(1))
         apply (rule pj(2))
        apply (rule run)
    using procs apply simp
    using points apply simp
    using least apply blast
    using first apply blast
    done
qed

theorem first_in_scan_order_selected_witness:
  "candidates tied_buffers 2 1 [0] = [DonorInfo 1 100 0, DonorInfo 1 200 1] \<and>
   dist' (DonorInfo 1 100 0) = dist' (DonorInfo 1 200 1) \<and>
   target_vertex_body (std_partial_sort (\<lambda>a b. dist' a < dist' b)) 1 epsilon_binary64 tied_buffers 2 1
     example_nodes (replicate 2 (DonorInfo 0 0 0), example_vertex) =
   Inr ([DonorInfo (1 / (1 + epsilon_binary64)) 100 0, DonorInfo 1 200 1],
        example_vertex\<lparr>Donor :=
          [\<lparr>InterpDonorPoint = Some 100, InterpDonorProcessor = Some 0, DonorCoeff = Some 1\<rparr>]\<rparr>) \<and>
   (\<exists>iProcessor jVertex. iProcessor < (2::nat) \<and>
      jVertex < Buffer_Receive_nVertex_Donor tied_buffers ! iProcessor \<and>
      [Some (0::int)] = [Some (int iProcessor)])"
proof -
  have le: "1 \<le> nPossibleDonor tied_buffers"
    by (simp add: tied_nPossibleDonor)
  note run = tied_run_heap_select [OF epsilon_binary64_pos]
  from first_in_scan_order_selected [where nodes = example_nodes and tv = example_vertex
      and eps = epsilon_binary64, OF tied_gathered tied_length example_owned le]
  obtain iProcessor jVertex v' tv' where
    r: "iProcessor < 2" "jVertex < Buffer_Receive_nVertex_Donor tied_buffers ! iProcessor"
      "target_vertex_body (std_partial_sort (\<lambda>a b. dist' a < dist' b)) 1 epsilon_binary64 tied_buffers 2 1
         example_nodes (replicate 2 (DonorInfo 0 0 0), example_vertex) = Inr (v', tv')"
      "map InterpDonorProcessor (Donor tv') = [Some (int iProcessor)]"
    apply (elim exE conjE)
    apply (rule that; assumption)
    done
  have "[Some (0::int)] = [Some (int iProcessor)]"
    using r(3,4) unfolding run by auto
  then have "\<exists>iProcessor jVertex. iProcessor < (2::nat) \<and>
      jVertex < Buffer_Receive_nVertex_Donor tied_buffers ! iProcessor \<and>
      [Some (0::int)] = [Some (int iProcessor)]"
    using r(1,2) by blast
  then show ?thesis
    using tied_candidates run by (simp add: DonorInfo_def)
qed

text \<open>
  C9. A target vertex whose node has the domain-ownership flag false is skipped: the
  search for it returns at once with the scratch vector and the vertex as they were (no
  candidate scan, no allocation, no slot written), and after the whole pass of
  \<^verbatim>\<open>Set_TransferCoeff\<close> every such vertex of every marker is what it was before; the pass
  changes the number of vertices of no marker.
\<close>

theorem halo_vertex_untouched:
  "(\<not> GetDomain (nodes (GetNode tv)) \<longrightarrow>
      target_vertex_body psort nDonor eps b nProcessor nDim nodes (v, tv) = Inr (v, tv)) \<and>
   (Set_TransferCoeff C eps config_donor config_target g nProcessor st = Inr st' \<longrightarrow>
      (\<forall>m. length (vertex st' m) = length (vertex st m)) \<and>
      (\<forall>m i. i < length (vertex st m) \<longrightarrow>
         \<not> GetDomain (node g (GetNode (vertex st m ! i))) \<longrightarrow>
         vertex st' m ! i = vertex st m ! i))"
proof (intro conjI impI allI)
  assume "\<not> GetDomain (nodes (GetNode tv))"
  then show "target_vertex_body psort nDonor eps b nProcessor nDim nodes (v, tv) = Inr (v, tv)"
    by (rule target_vertex_body_halo)
next
  let ?Q = "\<lambda>tv tv'. \<not> GetDomain (node g (GetNode tv)) \<longrightarrow> tv' = tv"
  assume run: "Set_TransferCoeff C eps config_donor config_target g nProcessor st = Inr st'"
  have all: "list_all2 ?Q (vertex st m) (vertex st' m)" for m
  proof (rule Set_TransferCoeff_vertexwise [where Q = ?Q, OF _ _ _ run])
    show "?Q x x" for x
      by simp
    show "?Q x z" if "?Q x y" "?Q y z" for x y z
      using that by auto
    show "?Q x x'"
      if "target_vertex_body (partial_sort C) (nDonor_of config_donor) eps b nProcessor nDim (node g) (w, x)
        = Inr (w', x')" for b nDim w x w' x'
      using that by (auto simp: target_vertex_body_halo)
  qed
  show "length (vertex st' m) = length (vertex st m)" for m
    using all [of m] by (simp add: list_all2_lengthD)
  show "vertex st' m ! i = vertex st m ! i"
    if "i < length (vertex st m)" "\<not> GetDomain (node g (GetNode (vertex st m ! i)))" for m i
    using all [of m] that by (simp add: list_all2_conv_all_nth)
qed

theorem halo_vertex_untouched_witness:
  "\<not> GetDomain (node example_geometry (GetNode (vertex example_state 1 ! 1))) \<and>
   Set_TransferCoeff example_collaborators epsilon_binary64 example_config_donor example_config_target
     example_geometry 2 example_state = Inr (example_final epsilon_binary64) \<and>
   vertex (example_final epsilon_binary64) 1 ! 1 = vertex example_state 1 ! 1 \<and>
   vertex example_state 1 ! 1 = example_halo_vertex \<and>
   target_vertex_body partial_sort_stable 2 epsilon_binary64 example_buffers 2 1 example_nodes
     (example_scratch, example_halo_vertex) = Inr (example_scratch, example_halo_vertex)"
proof -
  have h: "\<not> GetDomain (node example_geometry (GetNode (vertex example_state 1 ! 1)))"
    by (simp add: example_geometry_def example_state_def example_nodes_def example_halo_vertex_def)
  have i: "1 < length (vertex example_state 1)"
    by (simp add: example_state_def)
  have v: "vertex example_state 1 ! 1 = example_halo_vertex"
    by (simp add: example_state_def)
  note t = halo_vertex_untouched [where nodes = example_nodes and tv = example_halo_vertex
      and psort = partial_sort_stable and nDonor = 2 and eps = epsilon_binary64
      and b = example_buffers and nProcessor = 2 and nDim = 1 and v = example_scratch
      and C = example_collaborators and config_donor = example_config_donor
      and config_target = example_config_target and g = example_geometry and st = example_state
      and st' = "example_final epsilon_binary64"]
  from t example_halo have 1: "target_vertex_body partial_sort_stable 2 epsilon_binary64
      example_buffers 2 1 example_nodes (example_scratch, example_halo_vertex) =
      Inr (example_scratch, example_halo_vertex)"
    by blast
  from t example_pass [of epsilon_binary64] i h
  have 2: "vertex (example_final epsilon_binary64) 1 ! 1 = vertex example_state 1 ! 1"
    by blast
  show ?thesis
    using h example_pass [of epsilon_binary64] 1 2 v by blast
qed

text \<open>
  C10. When the interface-boundary check fails for the donor-side and target-side markers
  of an interface marker index, the iteration for that index returns the state as it was:
  no event is added (no buffer is allocated, neither collective is issued), no vertex and
  no scratch vector changes, no error is raised, and the loop goes on with the next index.
  With the check of the spec (both markers are the sentinel \<open>-1\<close>) this is the case of a
  marker that resolves to the sentinel on both sides. An iteration whose check passes and
  that returns does add events.
\<close>

theorem absent_marker_skipped:
  "(\<not> CheckInterfaceBoundary C (Find_InterfaceMarker config_donor iMarkerInt)
        (Find_InterfaceMarker config_target iMarkerInt) \<longrightarrow>
      marker_body C config_donor config_target g nDonor eps nProcessor iMarkerInt st = Inr st \<and>
      for_loop (iMarkerInt # rest) (marker_body C config_donor config_target g nDonor eps nProcessor) st =
        for_loop rest (marker_body C config_donor config_target g nDonor eps nProcessor) st) \<and>
   (CheckInterfaceBoundary C = CheckInterfaceBoundary_spec \<longrightarrow>
      Find_InterfaceMarker config_donor iMarkerInt = - 1 \<longrightarrow>
      Find_InterfaceMarker config_target iMarkerInt = - 1 \<longrightarrow>
      marker_body C config_donor config_target g nDonor eps nProcessor iMarkerInt st = Inr st) \<and>
   (\<forall>st'. CheckInterfaceBoundary C (Find_InterfaceMarker config_donor iMarkerInt)
        (Find_InterfaceMarker config_target iMarkerInt) \<longrightarrow>
      marker_body C config_donor config_target g nDonor eps nProcessor iMarkerInt st = Inr st' \<longrightarrow>
      events st' \<noteq> events st)"
proof (intro conjI impI allI)
  assume "\<not> CheckInterfaceBoundary C (Find_InterfaceMarker config_donor iMarkerInt)
        (Find_InterfaceMarker config_target iMarkerInt)"
  then show skip: "marker_body C config_donor config_target g nDonor eps nProcessor iMarkerInt st = Inr st"
    by (simp add: marker_body_def)
  then show "for_loop (iMarkerInt # rest) (marker_body C config_donor config_target g nDonor eps nProcessor) st =
        for_loop rest (marker_body C config_donor config_target g nDonor eps nProcessor) st"
    by simp
next
  assume "CheckInterfaceBoundary C = CheckInterfaceBoundary_spec"
    "Find_InterfaceMarker config_donor iMarkerInt = - 1"
    "Find_InterfaceMarker config_target iMarkerInt = - 1"
  then show "marker_body C config_donor config_target g nDonor eps nProcessor iMarkerInt st = Inr st"
    by (simp add: marker_body_def CheckInterfaceBoundary_spec_def)
next
  fix st'
  assume c: "CheckInterfaceBoundary C (Find_InterfaceMarker config_donor iMarkerInt)
        (Find_InterfaceMarker config_target iMarkerInt)"
    and run: "marker_body C config_donor config_target g nDonor eps nProcessor iMarkerInt st = Inr st'"
  from run show "events st' \<noteq> events st"
  proof (cases rule: marker_body_Inr)
    case skipped
    then show ?thesis using c by simp
  next
    case (processed v' verts')
    then show ?thesis by (simp add: marker_events_def)
  qed
qed

theorem absent_marker_skipped_witness:
  "Find_InterfaceMarker example_config_donor 2 = - 1 \<and>
   Find_InterfaceMarker example_config_target 2 = - 1 \<and>
   CheckInterfaceBoundary example_collaborators = CheckInterfaceBoundary_spec \<and>
   marker_body example_collaborators example_config_donor example_config_target example_geometry
     2 epsilon_binary64 2 2 example_state = Inr example_state \<and>
   CheckInterfaceBoundary example_collaborators (Find_InterfaceMarker example_config_donor 1)
     (Find_InterfaceMarker example_config_target 1) \<and>
   (\<exists>st'. marker_body example_collaborators example_config_donor example_config_target
            example_geometry 2 epsilon_binary64 2 1
            (example_state\<lparr>events := [New ''Buffer_Receive_nVertex_Donor'' 2]\<rparr>) = Inr st' \<and>
          events st' \<noteq> [New ''Buffer_Receive_nVertex_Donor'' 2])"
proof -
  have f: "Find_InterfaceMarker example_config_donor 2 = - 1"
    "Find_InterfaceMarker example_config_target 2 = - 1"
    by (simp_all add: example_config_donor_def example_config_target_def)
  have c: "CheckInterfaceBoundary example_collaborators = CheckInterfaceBoundary_spec"
    by (simp add: example_collaborators_def)
  note t = absent_marker_skipped [where C = example_collaborators
      and config_donor = example_config_donor and config_target = example_config_target
      and iMarkerInt = 2 and g = example_geometry and nDonor = 2 and eps = epsilon_binary64
      and nProcessor = 2 and st = example_state and rest = "[]"]
  from t c f have skipped: "marker_body example_collaborators example_config_donor
      example_config_target example_geometry 2 epsilon_binary64 2 2 example_state = Inr example_state"
    by blast
  have p: "CheckInterfaceBoundary example_collaborators (Find_InterfaceMarker example_config_donor 1)
      (Find_InterfaceMarker example_config_target 1)"
    by (simp add: example_collaborators_def example_config_donor_def example_config_target_def
        CheckInterfaceBoundary_spec_def)
  let ?st = "example_state\<lparr>events := [New ''Buffer_Receive_nVertex_Donor'' 2]\<rparr>"
  note u = absent_marker_skipped [where C = example_collaborators
      and config_donor = example_config_donor and config_target = example_config_target
      and iMarkerInt = 1 and g = example_geometry and nDonor = 2 and eps = epsilon_binary64
      and nProcessor = 2 and st = ?st and rest = "[]"]
  have e: "events ?st = [New ''Buffer_Receive_nVertex_Donor'' 2]"
    by simp
  from u p example_marker_1 [of epsilon_binary64]
  have processed: "\<exists>st'. marker_body example_collaborators example_config_donor example_config_target
            example_geometry 2 epsilon_binary64 2 1 ?st = Inr st' \<and>
          events st' \<noteq> [New ''Buffer_Receive_nVertex_Donor'' 2]"
    unfolding e by blast
  show ?thesis
    using f c skipped p processed by blast
qed

end
